theory Spec2Isabelle
  imports Main "HOL-Library.Word" "HOL-Library.Monad_Syntax"
begin

unbundle bit_operations_syntax

section \<open>The dxgkrnl handle manager (drivers/hyperv/dxgkrnl/hmgr.c)\<close>

text \<open>
  The C type \<open>uint\<close> and the handle type \<open>d3dkmt_handle\<close> are 32-bit unsigned
  integers; a \<open>void *\<close> is a 64-bit word (the driver is built for x86-64 and arm64).
  A function of the model returns \<open>None\<close> exactly when the C code would access
  \<open>entry_table\<close> outside the allocated block (or through a NULL table pointer);
  every status the C code reports itself (\<open>false\<close>, \<open>0\<close>, \<open>NULL\<close>, a status code) is
  a value inside \<open>Some\<close>.
\<close>

type_synonym uint = "32 word"
type_synonym d3dkmt_handle = "32 word"
type_synonym pointer = "64 word"

subsection \<open>Handle parameters\<close>

definition HMGRHANDLE_INSTANCE_BITS :: nat where "HMGRHANDLE_INSTANCE_BITS = 6"
definition HMGRHANDLE_INDEX_BITS :: nat where "HMGRHANDLE_INDEX_BITS = 24"
definition HMGRHANDLE_UNIQUE_BITS :: nat where "HMGRHANDLE_UNIQUE_BITS = 2"

definition HMGRHANDLE_INSTANCE_SHIFT :: nat where "HMGRHANDLE_INSTANCE_SHIFT = 0"
definition HMGRHANDLE_INDEX_SHIFT :: nat where
  "HMGRHANDLE_INDEX_SHIFT = HMGRHANDLE_INSTANCE_BITS + HMGRHANDLE_INSTANCE_SHIFT"
definition HMGRHANDLE_UNIQUE_SHIFT :: nat where
  "HMGRHANDLE_UNIQUE_SHIFT = HMGRHANDLE_INDEX_BITS + HMGRHANDLE_INDEX_SHIFT"

definition HMGRHANDLE_INSTANCE_MASK :: uint where
  "HMGRHANDLE_INSTANCE_MASK =
     push_bit HMGRHANDLE_INSTANCE_SHIFT (push_bit HMGRHANDLE_INSTANCE_BITS 1 - 1)"
definition HMGRHANDLE_INDEX_MASK :: uint where
  "HMGRHANDLE_INDEX_MASK =
     push_bit HMGRHANDLE_INDEX_SHIFT (push_bit HMGRHANDLE_INDEX_BITS 1 - 1)"
definition HMGRHANDLE_UNIQUE_MASK :: uint where
  "HMGRHANDLE_UNIQUE_MASK =
     push_bit HMGRHANDLE_UNIQUE_SHIFT (push_bit HMGRHANDLE_UNIQUE_BITS 1 - 1)"

definition HMGRHANDLE_INSTANCE_MAX :: uint where
  "HMGRHANDLE_INSTANCE_MAX = push_bit HMGRHANDLE_INSTANCE_BITS 1 - 1"
definition HMGRHANDLE_INDEX_MAX :: uint where
  "HMGRHANDLE_INDEX_MAX = push_bit HMGRHANDLE_INDEX_BITS 1 - 1"
definition HMGRHANDLE_UNIQUE_MAX :: uint where
  "HMGRHANDLE_UNIQUE_MAX = push_bit HMGRHANDLE_UNIQUE_BITS 1 - 1"

definition HMGRTABLE_SIZE_INCREMENT :: uint where "HMGRTABLE_SIZE_INCREMENT = 1024"
definition HMGRTABLE_MIN_FREE_ENTRIES :: uint where "HMGRTABLE_MIN_FREE_ENTRIES = 128"
definition HMGRTABLE_INVALID_INDEX :: uint where
  "HMGRTABLE_INVALID_INDEX = NOT (push_bit HMGRHANDLE_INDEX_BITS 1 - 1)"

text \<open>
  \<open>table_size_increment\<close> is a file-static variable initialised to
  \<open>HMGRTABLE_SIZE_INCREMENT\<close> that nothing in the file assigns.
\<close>

definition table_size_increment :: uint where
  "table_size_increment = HMGRTABLE_SIZE_INCREMENT"

subsection \<open>Handle entry\<close>

text \<open>
  Modelled from the spec: \<open>enum hmgrentry_type\<close> is declared in hmgr.h, which is not
  among the sources. The spec describes it as a fixed enumeration of object kinds with
  one distinguished value for a free slot, used only in equality tests; the bit-field
  that stores it (\<open>HMGRENTRY_TYPE_BITS + 1\<close> bits) holds every enumerator.
\<close>

datatype hmgrentry_type = HMGRENTRY_TYPE_FREE | HMGRENTRY_TYPE_OBJECT nat

text \<open>
  \<open>struct hmgrentry\<close>. The anonymous union of \<open>void *object\<close> with the pair
  \<open>prev_free_index\<close>, \<open>next_free_index\<close> is one 64-bit cell, the field \<open>object\<close>;
  on the little-endian LP64 targets \<open>prev_free_index\<close> is its low half and
  \<open>next_free_index\<close> its high half. The bit-fields \<open>unique\<close> (2 bits) and
  \<open>instance\<close> (6 bits) are words of that width, \<open>destroyed\<close> (1 bit) is a bool.
\<close>

record hmgrentry =
  object :: pointer
  type :: hmgrentry_type
  unique :: "2 word"
  instance_field :: "6 word"
  destroyed :: bool

definition prev_free_index :: "hmgrentry \<Rightarrow> uint" where
  "prev_free_index entry = ucast (object entry)"

definition next_free_index :: "hmgrentry \<Rightarrow> uint" where
  "next_free_index entry = ucast (drop_bit 32 (object entry))"

definition set_prev_free_index :: "uint \<Rightarrow> hmgrentry \<Rightarrow> hmgrentry" where
  "set_prev_free_index v entry =
     entry\<lparr>object := push_bit 32 (drop_bit 32 (object entry)) OR ucast v\<rparr>"

definition set_next_free_index :: "uint \<Rightarrow> hmgrentry \<Rightarrow> hmgrentry" where
  "set_next_free_index v entry =
     entry\<lparr>object := push_bit 32 (ucast v) OR take_bit 32 (object entry)\<rparr>"

subsection \<open>Handle table\<close>

text \<open>
  \<open>struct hmgrtable\<close> (declared in hmgr.h; the fields are those hmgr.c uses, without
  the lock). \<open>entry_table\<close> is \<open>None\<close> for the NULL pointer, otherwise the entries of
  the allocated block.
\<close>

record hmgrtable =
  process :: pointer
  entry_table :: "hmgrentry list option"
  free_handle_list_head :: uint
  free_handle_list_tail :: uint
  table_size :: uint
  free_count :: uint

text \<open>Reading and writing \<open>table->entry_table[i]\<close>; \<open>None\<close> outside the block.\<close>

definition entry_at :: "hmgrtable \<Rightarrow> uint \<Rightarrow> hmgrentry option" where
  "entry_at table i =
     (case entry_table table of
        None \<Rightarrow> None
      | Some es \<Rightarrow> if unat i < length es then Some (es ! unat i) else None)"

definition entry_update :: "hmgrtable \<Rightarrow> uint \<Rightarrow> (hmgrentry \<Rightarrow> hmgrentry) \<Rightarrow> hmgrtable option" where
  "entry_update table i f =
     (case entry_table table of
        None \<Rightarrow> None
      | Some es \<Rightarrow>
          if unat i < length es
          then Some (table\<lparr>entry_table := Some (es[unat i := f (es ! unat i)])\<rparr>)
          else None)"

subsection \<open>Handle codec\<close>

definition get_unique :: "d3dkmt_handle \<Rightarrow> uint" where
  "get_unique h = drop_bit HMGRHANDLE_UNIQUE_SHIFT (h AND HMGRHANDLE_UNIQUE_MASK)"

definition get_index :: "d3dkmt_handle \<Rightarrow> uint" where
  "get_index h = drop_bit HMGRHANDLE_INDEX_SHIFT (h AND HMGRHANDLE_INDEX_MASK)"

definition get_instance :: "d3dkmt_handle \<Rightarrow> uint" where
  "get_instance h = drop_bit HMGRHANDLE_INSTANCE_SHIFT (h AND HMGRHANDLE_INSTANCE_MASK)"

definition build_handle :: "uint \<Rightarrow> uint \<Rightarrow> uint \<Rightarrow> d3dkmt_handle" where
  "build_handle index uniq inst =
     (let handle_bits = push_bit HMGRHANDLE_INDEX_SHIFT index AND HMGRHANDLE_INDEX_MASK;
          handle_bits = handle_bits OR
            (push_bit HMGRHANDLE_UNIQUE_SHIFT uniq AND HMGRHANDLE_UNIQUE_MASK);
          handle_bits = handle_bits OR
            (push_bit HMGRHANDLE_INSTANCE_SHIFT inst AND HMGRHANDLE_INSTANCE_MASK)
      in handle_bits)"

subsection \<open>Validation and lookup\<close>

definition is_handle_valid ::
  "hmgrtable \<Rightarrow> d3dkmt_handle \<Rightarrow> bool \<Rightarrow> hmgrentry_type \<Rightarrow> bool option" where
  "is_handle_valid table h ignore_destroyed t =
     (let index = get_index h; uniq = get_unique h in
      if index \<ge> table_size table then Some False
      else do {
        entry \<leftarrow> entry_at table index;
        Some (if uniq \<noteq> ucast (unique entry) then False
              else if destroyed entry \<and> \<not> ignore_destroyed then False
              else if type entry = HMGRENTRY_TYPE_FREE then False
              else if t \<noteq> HMGRENTRY_TYPE_FREE \<and> t \<noteq> type entry then False
              else True)
      })"

definition hmgrtable_get_used_entry_count :: "hmgrtable \<Rightarrow> uint" where
  "hmgrtable_get_used_entry_count table = table_size table - free_count table"

definition hmgrtable_mark_destroyed :: "hmgrtable \<Rightarrow> d3dkmt_handle \<Rightarrow> (hmgrtable \<times> bool) option" where
  "hmgrtable_mark_destroyed table h = do {
     valid \<leftarrow> is_handle_valid table h False HMGRENTRY_TYPE_FREE;
     if \<not> valid then Some (table, False)
     else do {
       table \<leftarrow> entry_update table (get_index h) (\<lambda>e. e\<lparr>destroyed := True\<rparr>);
       Some (table, True)
     }
   }"

definition hmgrtable_unmark_destroyed :: "hmgrtable \<Rightarrow> d3dkmt_handle \<Rightarrow> (hmgrtable \<times> bool) option" where
  "hmgrtable_unmark_destroyed table h = do {
     valid \<leftarrow> is_handle_valid table h True HMGRENTRY_TYPE_FREE;
     if \<not> valid then Some (table, True)
     else do {
       table \<leftarrow> entry_update table (get_index h) (\<lambda>e. e\<lparr>destroyed := False\<rparr>);
       Some (table, True)
     }
   }"

definition is_empty :: "hmgrtable \<Rightarrow> bool" where
  "is_empty table = (free_count table = table_size table)"

text \<open>The lookups return the object pointer, \<open>0\<close> for NULL.\<close>

definition hmgrtable_get_object :: "hmgrtable \<Rightarrow> d3dkmt_handle \<Rightarrow> pointer option" where
  "hmgrtable_get_object table h = do {
     valid \<leftarrow> is_handle_valid table h False HMGRENTRY_TYPE_FREE;
     if \<not> valid then Some 0
     else map_option object (entry_at table (get_index h))
   }"

definition hmgrtable_get_object_by_type ::
  "hmgrtable \<Rightarrow> hmgrentry_type \<Rightarrow> d3dkmt_handle \<Rightarrow> pointer option" where
  "hmgrtable_get_object_by_type table t h = do {
     valid \<leftarrow> is_handle_valid table h False t;
     if \<not> valid then Some 0
     else map_option object (entry_at table (get_index h))
   }"

definition hmgrtable_get_object_ignore_destroyed ::
  "hmgrtable \<Rightarrow> d3dkmt_handle \<Rightarrow> hmgrentry_type \<Rightarrow> pointer option" where
  "hmgrtable_get_object_ignore_destroyed table h t = do {
     valid \<leftarrow> is_handle_valid table h True t;
     if \<not> valid then Some 0
     else map_option object (entry_at table (get_index h))
   }"

subsection \<open>Growing the table\<close>

text \<open>
  \<open>dxgmem_alloc\<close> is defined outside hmgr.c. Its answer to one call is a parameter of
  the model: \<open>None\<close> for NULL, otherwise the initial content of the fresh block, entry by
  entry (the loop of \<open>expand_table\<close> leaves the \<open>destroyed\<close> bit of a new entry as the
  allocator delivered it).
\<close>

type_synonym dxgmem = "(nat \<Rightarrow> hmgrentry) option"

text \<open>\<open>memcpy\<close> of \<open>n\<close> entries from \<open>src\<close> to the start of \<open>dst\<close>.\<close>

definition memcpy_entries :: "hmgrentry list \<Rightarrow> hmgrentry list \<Rightarrow> nat \<Rightarrow> hmgrentry list option" where
  "memcpy_entries dst src n =
     (if n \<le> length src \<and> n \<le> length dst then Some (take n src @ drop n dst) else None)"

text \<open>
  The \<open>while (table_index < new_table_size)\<close> loop; it returns the entries and the
  final \<open>table_index\<close>.
\<close>

function expand_table_loop ::
  "uint \<Rightarrow> uint \<Rightarrow> uint \<Rightarrow> hmgrentry list \<Rightarrow> (hmgrentry list \<times> uint) option" where
  "expand_table_loop table_index new_table_size prev_index entries =
     (if table_index < new_table_size then
        (if unat table_index < length entries then
           let entry = entries ! unat table_index;
               entry = set_prev_free_index prev_index entry;
               entry = set_next_free_index (table_index + 1) entry;
               entry = entry\<lparr>type := HMGRENTRY_TYPE_FREE\<rparr>;
               entry = entry\<lparr>unique := 1\<rparr>;
               entry = entry\<lparr>instance_field := 0\<rparr>
           in expand_table_loop (table_index + 1) new_table_size table_index
                (entries[unat table_index := entry])
         else None)
      else Some (entries, table_index))"
  by pat_completeness auto
termination
proof (relation "measure (\<lambda>(i, n, p, es). unat n - unat i)")
  show "wf (measure (\<lambda>(i, n, p, es). unat n - unat i))"
    by simp
next
  fix table_index new_table_size prev_index :: uint
  fix entries :: "hmgrentry list" and x xa xb xc xd :: hmgrentry
  assume lt: "table_index < new_table_size"
  then have "unat table_index < unat new_table_size"
    by (simp add: word_less_nat_alt)
  moreover from lt have "unat (table_index + 1) = unat table_index + 1"
    by unat_arith
  ultimately show "((table_index + 1, new_table_size, table_index,
       entries[unat table_index := xd]), table_index, new_table_size, prev_index, entries)
       \<in> measure (\<lambda>(i, n, p, es). unat n - unat i)"
    by simp
qed

text \<open>
  \<open>expand_table\<close> in two parts: \<open>expand_table_fill\<close> is the function from the
  \<open>memcpy\<close> to the end, once \<open>dxgmem_alloc\<close> has returned the block \<open>new_entry\<close>;
  \<open>expand_table\<close> is the checks before it.
\<close>

definition expand_table_fill :: "hmgrtable \<Rightarrow> uint \<Rightarrow> hmgrentry list \<Rightarrow> hmgrtable option" where
  "expand_table_fill table new_table_size new_entry = do {
     (new_entry, table) \<leftarrow>
       (case entry_table table of
          Some old \<Rightarrow>
            map_option (\<lambda>es. (es, table))
              (memcpy_entries new_entry old (unat (table_size table)))
        | None \<Rightarrow> Some (new_entry, table\<lparr>free_handle_list_head := 0\<rparr>));
     let table = table\<lparr>entry_table := Some new_entry\<rparr>;
     let table_index = table_size table;
     let new_free_count = free_count table + table_size_increment;
     let prev_index = free_handle_list_tail table;
     (new_entry, table_index) \<leftarrow>
       expand_table_loop table_index new_table_size prev_index new_entry;
     let table = table\<lparr>entry_table := Some new_entry\<rparr>;
     table \<leftarrow> entry_update table (table_index - 1)
                (set_next_free_index HMGRTABLE_INVALID_INDEX);
     table \<leftarrow>
       (if free_count table \<noteq> 0
        then entry_update table (free_handle_list_tail table)
               (set_next_free_index (table_size table))
        else Some table);
     let table = table\<lparr>free_handle_list_tail := new_table_size - 1\<rparr>;
     let table =
       (if free_handle_list_head table = HMGRTABLE_INVALID_INDEX
        then table\<lparr>free_handle_list_head := table_size table\<rparr>
        else table);
     let table = table\<lparr>table_size := new_table_size\<rparr>;
     let table = table\<lparr>free_count := new_free_count\<rparr>;
     Some table
   }"

definition expand_table :: "hmgrtable \<Rightarrow> uint \<Rightarrow> dxgmem \<Rightarrow> (hmgrtable \<times> bool) option" where
  "expand_table table NumEntries mem =
     (let tail_index = free_handle_list_tail table in
      do {
        tail_is_last \<leftarrow>
          (if free_count table = 0 then Some True
           else map_option (\<lambda>e. next_free_index e = HMGRTABLE_INVALID_INDEX)
                  (entry_at table tail_index));
        if \<not> tail_is_last then Some (table, False)
        else
          let new_table_size = table_size table + table_size_increment;
              new_table_size = (if new_table_size < NumEntries then NumEntries else new_table_size)
          in
          if new_table_size > HMGRHANDLE_INDEX_MAX then Some (table, False)
          else
            case mem of
              None \<Rightarrow> Some (table, False)
            | Some fresh \<Rightarrow>
                map_option (\<lambda>table. (table, True))
                  (expand_table_fill table new_table_size (map fresh [0..<unat new_table_size]))
      })"

definition hmgrtable_init :: "pointer \<Rightarrow> hmgrtable" where
  "hmgrtable_init proc =
     \<lparr>process = proc, entry_table = None,
      free_handle_list_head = HMGRTABLE_INVALID_INDEX,
      free_handle_list_tail = HMGRTABLE_INVALID_INDEX,
      table_size = 0, free_count = 0\<rparr>"

subsection \<open>Allocating, assigning and freeing handles\<close>

text \<open>
  \<open>hmgrtable_alloc_handle\<close> returns the handle, \<open>0\<close> on failure. The two
  \<open>DXGKRNL_ASSERT\<close>s on \<open>type\<close> (a macro of misc.h, empty in a production build) are
  the caller's obligation and are not executed.
\<close>

definition hmgrtable_alloc_handle ::
  "hmgrtable \<Rightarrow> pointer \<Rightarrow> hmgrentry_type \<Rightarrow> bool \<Rightarrow> dxgmem
     \<Rightarrow> (hmgrtable \<times> d3dkmt_handle) option" where
  "hmgrtable_alloc_handle table obj t make_valid mem = do {
     (table, expanded) \<leftarrow>
       (if free_count table \<le> HMGRTABLE_MIN_FREE_ENTRIES
        then expand_table table 0 mem else Some (table, True));
     if \<not> expanded then Some (table, 0)
     else if free_handle_list_head table \<ge> table_size table then Some (table, 0)
     else do {
       let index = free_handle_list_head table;
       entry \<leftarrow> entry_at table index;
       if type entry \<noteq> HMGRENTRY_TYPE_FREE then Some (table, 0)
       else do {
         let table = table\<lparr>free_handle_list_head := next_free_index entry\<rparr>;
         if next_free_index entry \<noteq> free_handle_list_tail table
            \<and> next_free_index entry \<ge> table_size table
         then Some (table, 0)
         else do {
           table \<leftarrow>
             (if next_free_index entry \<noteq> free_handle_list_tail table
              then entry_update table (next_free_index entry)
                     (set_prev_free_index HMGRTABLE_INVALID_INDEX)
              else Some table);
           e \<leftarrow> entry_at table index;
           let uniq = ucast (unique e);
           table \<leftarrow> entry_update table index (\<lambda>e. e\<lparr>object := obj\<rparr>);
           table \<leftarrow> entry_update table index (\<lambda>e. e\<lparr>type := t\<rparr>);
           table \<leftarrow> entry_update table index (\<lambda>e. e\<lparr>instance_field := 0\<rparr>);
           table \<leftarrow> entry_update table index (\<lambda>e. e\<lparr>destroyed := \<not> make_valid\<rparr>);
           let table = table\<lparr>free_count := free_count table - 1\<rparr>;
           e \<leftarrow> entry_at table index;
           Some (table, build_handle index uniq (ucast (instance_field e)))
         }
       }
     }
   }"

text \<open>
  The status codes are macros of a header that is not among the sources;
  \<open>hmgrtable_assign_handle\<close> returns \<open>0\<close> on success.
\<close>

datatype status = STATUS_SUCCESS | STATUS_INVALID_PARAMETER | STATUS_NO_MEMORY

definition hmgrtable_assign_handle ::
  "hmgrtable \<Rightarrow> pointer \<Rightarrow> hmgrentry_type \<Rightarrow> d3dkmt_handle \<Rightarrow> dxgmem
     \<Rightarrow> (hmgrtable \<times> status) option" where
  "hmgrtable_assign_handle table obj t h mem =
     (let index = get_index h; uniq = get_unique h in
      if index \<ge> HMGRHANDLE_INDEX_MAX then Some (table, STATUS_INVALID_PARAMETER)
      else do {
        (table, expanded) \<leftarrow>
          (if index \<ge> table_size table
           then let new_size = index + HMGRTABLE_SIZE_INCREMENT;
                    new_size = (if new_size > HMGRHANDLE_INDEX_MAX
                                then HMGRHANDLE_INDEX_MAX else new_size)
                in expand_table table new_size mem
           else Some (table, True));
        if \<not> expanded then Some (table, STATUS_NO_MEMORY)
        else do {
          entry \<leftarrow> entry_at table index;
          if type entry \<noteq> HMGRENTRY_TYPE_FREE then Some (table, STATUS_INVALID_PARAMETER)
          else if index \<noteq> free_handle_list_tail table
                  \<and> next_free_index entry \<ge> table_size table
          then Some (table, STATUS_INVALID_PARAMETER)
          else do {
            table \<leftarrow>
              (if index \<noteq> free_handle_list_tail table
               then entry_update table (next_free_index entry)
                      (set_prev_free_index (prev_free_index entry))
               else Some (table\<lparr>free_handle_list_tail := prev_free_index entry\<rparr>));
            entry \<leftarrow> entry_at table index;
            if index \<noteq> free_handle_list_head table
               \<and> prev_free_index entry \<ge> table_size table
            then Some (table, STATUS_INVALID_PARAMETER)
            else do {
              table \<leftarrow>
                (if index \<noteq> free_handle_list_head table
                 then entry_update table (prev_free_index entry)
                        (set_next_free_index (next_free_index entry))
                 else Some (table\<lparr>free_handle_list_head := next_free_index entry\<rparr>));
              table \<leftarrow> entry_update table index (set_prev_free_index HMGRTABLE_INVALID_INDEX);
              table \<leftarrow> entry_update table index (set_next_free_index HMGRTABLE_INVALID_INDEX);
              table \<leftarrow> entry_update table index (\<lambda>e. e\<lparr>object := obj\<rparr>);
              table \<leftarrow> entry_update table index (\<lambda>e. e\<lparr>type := t\<rparr>);
              table \<leftarrow> entry_update table index (\<lambda>e. e\<lparr>instance_field := 0\<rparr>);
              table \<leftarrow> entry_update table index (\<lambda>e. e\<lparr>unique := ucast uniq\<rparr>);
              table \<leftarrow> entry_update table index (\<lambda>e. e\<lparr>destroyed := False\<rparr>);
              let table = table\<lparr>free_count := free_count table - 1\<rparr>;
              Some (table, STATUS_SUCCESS)
            }
          }
        }
      })"

text \<open>
  \<open>hmgrtable_free_handle\<close>. Its two \<open>DXGKRNL_ASSERT\<close>s are kept as the predicate
  \<open>free_handle_asserts\<close>; the body does not execute them.
\<close>

definition free_handle_asserts :: "hmgrtable \<Rightarrow> bool" where
  "free_handle_asserts table \<longleftrightarrow>
     free_count table < table_size table \<and> free_count table \<ge> HMGRTABLE_MIN_FREE_ENTRIES"

definition hmgrtable_free_handle ::
  "hmgrtable \<Rightarrow> hmgrentry_type \<Rightarrow> d3dkmt_handle \<Rightarrow> hmgrtable option" where
  "hmgrtable_free_handle table t h =
     (let i = get_index h in
      do {
        valid \<leftarrow> is_handle_valid table h True t;
        if valid then do {
          table \<leftarrow> entry_update table i (\<lambda>e. e\<lparr>unique := 1\<rparr>);
          table \<leftarrow> entry_update table i (\<lambda>e. e\<lparr>type := HMGRENTRY_TYPE_FREE\<rparr>);
          table \<leftarrow> entry_update table i (\<lambda>e. e\<lparr>destroyed := False\<rparr>);
          table \<leftarrow> entry_update table i
            (\<lambda>e. if ucast (unique e) \<noteq> HMGRHANDLE_UNIQUE_MAX
                 then e\<lparr>unique := unique e + 1\<rparr> else e\<lparr>unique := 1\<rparr>);
          let table = table\<lparr>free_count := free_count table + 1\<rparr>;
          table \<leftarrow> entry_update table i (set_next_free_index HMGRTABLE_INVALID_INDEX);
          table \<leftarrow> entry_update table i (set_prev_free_index (free_handle_list_tail table));
          table \<leftarrow> entry_update table (free_handle_list_tail table) (set_next_free_index i);
          Some (table\<lparr>free_handle_list_tail := i\<rparr>)
        }
        else Some table
      })"

subsection \<open>Sequences of operations\<close>

text \<open>
  The operations that change a table, as a caller (holding the lock) issues them, and
  the table they leave. \<open>Grow\<close> is \<open>expand_table\<close> on its own.
\<close>

datatype hmgr_op =
    Alloc pointer hmgrentry_type bool dxgmem
  | Assign pointer hmgrentry_type d3dkmt_handle dxgmem
  | Free hmgrentry_type d3dkmt_handle
  | Grow uint dxgmem
  | Mark_destroyed d3dkmt_handle
  | Unmark_destroyed d3dkmt_handle

fun hmgr_apply :: "hmgr_op \<Rightarrow> hmgrtable \<Rightarrow> hmgrtable option" where
  "hmgr_apply (Alloc obj t make_valid mem) table =
     map_option fst (hmgrtable_alloc_handle table obj t make_valid mem)"
| "hmgr_apply (Assign obj t h mem) table =
     map_option fst (hmgrtable_assign_handle table obj t h mem)"
| "hmgr_apply (Free t h) table = hmgrtable_free_handle table t h"
| "hmgr_apply (Grow n mem) table = map_option fst (expand_table table n mem)"
| "hmgr_apply (Mark_destroyed h) table = map_option fst (hmgrtable_mark_destroyed table h)"
| "hmgr_apply (Unmark_destroyed h) table = map_option fst (hmgrtable_unmark_destroyed table h)"

fun hmgr_run :: "hmgr_op list \<Rightarrow> hmgrtable \<Rightarrow> hmgrtable option" where
  "hmgr_run [] table = Some table"
| "hmgr_run (op # ops) table =
     (case hmgr_apply op table of None \<Rightarrow> None | Some table' \<Rightarrow> hmgr_run ops table')"

text \<open>The number of entries of type Free, and the generation stored in a slot.\<close>

definition free_entries :: "hmgrtable \<Rightarrow> nat" where
  "free_entries table =
     (case entry_table table of
        None \<Rightarrow> 0
      | Some es \<Rightarrow> length (filter (\<lambda>e. type e = HMGRENTRY_TYPE_FREE) es))"

definition entries_of :: "hmgrtable \<Rightarrow> hmgrentry list" where
  "entries_of table = (case entry_table table of None \<Rightarrow> [] | Some es \<Rightarrow> es)"

text \<open>A block the allocator hands out zero-filled.\<close>

definition zero_entry :: hmgrentry where
  "zero_entry = \<lparr>object = 0, type = HMGRENTRY_TYPE_FREE, unique = 0, instance_field = 0,
     destroyed = False\<rparr>"

definition zero_block :: "nat \<Rightarrow> hmgrentry" where
  "zero_block k = zero_entry"

definition zeroed :: dxgmem where
  "zeroed = Some zero_block"

subsection \<open>Auxiliary definitions for the proofs\<close>

definition new_free_entry :: "uint \<Rightarrow> uint \<Rightarrow> hmgrentry \<Rightarrow> hmgrentry" where
  "new_free_entry p n e =
     (set_next_free_index n (set_prev_free_index p e))
       \<lparr>type := HMGRENTRY_TYPE_FREE, unique := 1, instance_field := 0\<rparr>"

definition expand_entries :: "uint \<Rightarrow> uint \<Rightarrow> uint \<Rightarrow> hmgrentry list \<Rightarrow> hmgrentry list" where
  "expand_entries i n p es =
     map (\<lambda>k. if unat i \<le> k \<and> k < unat n
              then new_free_entry (if k = unat i then p else of_nat (k - 1)) (of_nat k + 1) (es ! k)
              else es ! k) [0..<length es]"

definition block_ok :: "hmgrtable \<Rightarrow> bool" where
  "block_ok table \<longleftrightarrow>
     table_size table \<le> HMGRHANDLE_INDEX_MAX \<and>
     (case entry_table table of
        None \<Rightarrow> table_size table = 0
      | Some es \<Rightarrow> length es = unat (table_size table))"

definition grown_entries :: "hmgrtable \<Rightarrow> uint \<Rightarrow> (nat \<Rightarrow> hmgrentry) \<Rightarrow> hmgrentry list" where
  "grown_entries table n fresh =
     (let es0 = entries_of table @ map fresh [unat (table_size table)..<unat n];
          es1 = expand_entries (table_size table) n (free_handle_list_tail table) es0;
          es2 = es1[unat (n - 1) := set_next_free_index HMGRTABLE_INVALID_INDEX (es1 ! unat (n - 1))]
      in if free_count table \<noteq> 0
         then es2[unat (free_handle_list_tail table) :=
                set_next_free_index (table_size table) (es2 ! unat (free_handle_list_tail table))]
         else es2)"

definition expand_target :: "hmgrtable \<Rightarrow> uint \<Rightarrow> uint" where
  "expand_target table NumEntries =
     (let new_table_size = table_size table + table_size_increment
      in if new_table_size < NumEntries then NumEntries else new_table_size)"

definition fresh_table :: "pointer \<Rightarrow> uint \<Rightarrow> (nat \<Rightarrow> hmgrentry) \<Rightarrow> hmgrtable" where
  "fresh_table proc n fresh =
     \<lparr>process = proc,
      entry_table = Some (grown_entries (hmgrtable_init proc) n fresh),
      free_handle_list_head = 0,
      free_handle_list_tail = n - 1,
      table_size = n,
      free_count = 1024\<rparr>"

definition assigned_entry :: "pointer \<Rightarrow> hmgrentry_type \<Rightarrow> 2 word \<Rightarrow> hmgrentry" where
  "assigned_entry obj t g =
     \<lparr>object = obj, type = t, unique = g, instance_field = 0, destroyed = False\<rparr>"

definition slot_generation :: "hmgrtable option \<Rightarrow> uint \<Rightarrow> 2 word option" where
  "slot_generation r i =
     (case r of None \<Rightarrow> None | Some table \<Rightarrow> map_option unique (entry_at table i))"

text \<open>The table after the first \<open>hmgrtable_assign_handle\<close>, at index 0, on a new table.\<close>

definition assigned_table ::
  "pointer \<Rightarrow> pointer \<Rightarrow> hmgrentry_type \<Rightarrow> 2 word \<Rightarrow> (nat \<Rightarrow> hmgrentry) \<Rightarrow> hmgrtable" where
  "assigned_table proc obj t g fresh =
     \<lparr>process = proc,
      entry_table = Some ((grown_entries (hmgrtable_init proc) 1024 fresh)
        [1 := set_prev_free_index HMGRTABLE_INVALID_INDEX
                (grown_entries (hmgrtable_init proc) 1024 fresh ! 1),
         0 := assigned_entry obj t g]),
      free_handle_list_head = 1,
      free_handle_list_tail = 1023,
      table_size = 1024,
      free_count = 1023\<rparr>"

text \<open>\<open>hmgrtable_alloc_handle\<close> from the test of the free-list head on.\<close>

definition alloc_pop ::
  "hmgrtable \<Rightarrow> pointer \<Rightarrow> hmgrentry_type \<Rightarrow> bool \<Rightarrow> (hmgrtable \<times> d3dkmt_handle) option" where
  "alloc_pop table obj t make_valid =
     (if free_handle_list_head table \<ge> table_size table then Some (table, 0)
      else do {
        let index = free_handle_list_head table;
        entry \<leftarrow> entry_at table index;
        if type entry \<noteq> HMGRENTRY_TYPE_FREE then Some (table, 0)
        else do {
          let table = table\<lparr>free_handle_list_head := next_free_index entry\<rparr>;
          if next_free_index entry \<noteq> free_handle_list_tail table
             \<and> next_free_index entry \<ge> table_size table
          then Some (table, 0)
          else do {
            table \<leftarrow>
              (if next_free_index entry \<noteq> free_handle_list_tail table
               then entry_update table (next_free_index entry)
                      (set_prev_free_index HMGRTABLE_INVALID_INDEX)
               else Some table);
            e \<leftarrow> entry_at table index;
            let uniq = ucast (unique e);
            table \<leftarrow> entry_update table index (\<lambda>e. e\<lparr>object := obj\<rparr>);
            table \<leftarrow> entry_update table index (\<lambda>e. e\<lparr>type := t\<rparr>);
            table \<leftarrow> entry_update table index (\<lambda>e. e\<lparr>instance_field := 0\<rparr>);
            table \<leftarrow> entry_update table index (\<lambda>e. e\<lparr>destroyed := \<not> make_valid\<rparr>);
            let table = table\<lparr>free_count := free_count table - 1\<rparr>;
            e \<leftarrow> entry_at table index;
            Some (table, build_handle index uniq (ucast (instance_field e)))
          }
        }
      })"

text \<open>The table after the first \<open>hmgrtable_alloc_handle\<close> on a new table.\<close>

definition allocated_table ::
  "pointer \<Rightarrow> pointer \<Rightarrow> hmgrentry_type \<Rightarrow> bool \<Rightarrow> (nat \<Rightarrow> hmgrentry) \<Rightarrow> hmgrtable" where
  "allocated_table proc obj t make_valid fresh =
     \<lparr>process = proc,
      entry_table = Some ((grown_entries (hmgrtable_init proc) 1024 fresh)
        [1 := set_prev_free_index HMGRTABLE_INVALID_INDEX
                (grown_entries (hmgrtable_init proc) 1024 fresh ! 1),
         0 := \<lparr>object = obj, type = t, unique = 1, instance_field = 0,
                destroyed = \<not> make_valid\<rparr>]),
      free_handle_list_head = 1,
      free_handle_list_tail = 1023,
      table_size = 1024,
      free_count = 1023\<rparr>"

text \<open>\<open>hmgrtable_assign_handle\<close> from the read of the target entry on.\<close>

definition assign_place ::
  "hmgrtable \<Rightarrow> pointer \<Rightarrow> hmgrentry_type \<Rightarrow> d3dkmt_handle \<Rightarrow> (hmgrtable \<times> status) option" where
  "assign_place table obj t h =
     (let index = get_index h; uniq = get_unique h in
      do {
        entry \<leftarrow> entry_at table index;
        if type entry \<noteq> HMGRENTRY_TYPE_FREE then Some (table, STATUS_INVALID_PARAMETER)
        else if index \<noteq> free_handle_list_tail table
                \<and> next_free_index entry \<ge> table_size table
        then Some (table, STATUS_INVALID_PARAMETER)
        else do {
          table \<leftarrow>
            (if index \<noteq> free_handle_list_tail table
             then entry_update table (next_free_index entry)
                    (set_prev_free_index (prev_free_index entry))
             else Some (table\<lparr>free_handle_list_tail := prev_free_index entry\<rparr>));
          entry \<leftarrow> entry_at table index;
          if index \<noteq> free_handle_list_head table
             \<and> prev_free_index entry \<ge> table_size table
          then Some (table, STATUS_INVALID_PARAMETER)
          else do {
            table \<leftarrow>
              (if index \<noteq> free_handle_list_head table
               then entry_update table (prev_free_index entry)
                      (set_next_free_index (next_free_index entry))
               else Some (table\<lparr>free_handle_list_head := next_free_index entry\<rparr>));
            table \<leftarrow> entry_update table index (set_prev_free_index HMGRTABLE_INVALID_INDEX);
            table \<leftarrow> entry_update table index (set_next_free_index HMGRTABLE_INVALID_INDEX);
            table \<leftarrow> entry_update table index (\<lambda>e. e\<lparr>object := obj\<rparr>);
            table \<leftarrow> entry_update table index (\<lambda>e. e\<lparr>type := t\<rparr>);
            table \<leftarrow> entry_update table index (\<lambda>e. e\<lparr>instance_field := 0\<rparr>);
            table \<leftarrow> entry_update table index (\<lambda>e. e\<lparr>unique := ucast uniq\<rparr>);
            table \<leftarrow> entry_update table index (\<lambda>e. e\<lparr>destroyed := False\<rparr>);
            let table = table\<lparr>free_count := free_count table - 1\<rparr>;
            Some (table, STATUS_SUCCESS)
          }
        }
      })"

text \<open>
  The invariant behind C5: the block holds \<open>table_size\<close> entries, within the index
  ceiling, and no slot stores generation 0.
\<close>

definition generations_inv :: "hmgrtable \<Rightarrow> bool" where
  "generations_inv table \<longleftrightarrow>
     block_ok table \<and> list_all (\<lambda>e. unique e \<noteq> 0) (entries_of table)"

text \<open>An \<open>Assign\<close> whose handle carries a generation other than 0; any other operation.\<close>

fun assign_generation_ok :: "hmgr_op \<Rightarrow> bool" where
  "assign_generation_ok (Assign obj t h mem) = (get_unique h \<noteq> 0)"
| "assign_generation_ok _ = True"

definition generations_in_range :: "hmgrtable \<Rightarrow> bool" where
  "generations_in_range table =
     list_all (\<lambda>e. 1 \<le> unique e \<and> unique e \<le> 3) (entries_of table)"

text \<open>
  Filling a table slot by slot with \<open>hmgrtable_assign_handle\<close>, each slot with object 5,
  type 1 and generation 1. \<open>assign_ops k\<close> assigns the slots 0 to \<open>k - 1\<close> of a new
  table in turn: the first call grows the table to 1024 entries. \<open>miscount_ops k\<close> starts
  at slot 1, so that the first call grows the table to 1025 entries, and goes on with the
  slots 0, 2, 3 to \<open>k - 1\<close>. \<open>filled_table n k\<close> is the table of \<open>n\<close> entries whose
  slots below \<open>k\<close> are occupied and whose other slots are the free list, in order, with
  \<open>free_count\<close> as the code has counted it: 1024 from the one growth, less the \<open>k\<close>
  assignments.
\<close>

definition filled_entry :: "nat \<Rightarrow> nat \<Rightarrow> nat \<Rightarrow> hmgrentry" where
  "filled_entry n k j =
     (if j < k then assigned_entry 5 (HMGRENTRY_TYPE_OBJECT 1) 1
      else new_free_entry (if j = k then HMGRTABLE_INVALID_INDEX else of_nat (j - 1))
             (if j = n - 1 then HMGRTABLE_INVALID_INDEX else of_nat j + 1) zero_entry)"

definition filled_table :: "nat \<Rightarrow> nat \<Rightarrow> hmgrtable" where
  "filled_table n k =
     \<lparr>process = 0,
      entry_table = Some (map (filled_entry n k) [0..<n]),
      free_handle_list_head = (if k = n then HMGRTABLE_INVALID_INDEX else of_nat k),
      free_handle_list_tail = (if k = n then HMGRTABLE_INVALID_INDEX else of_nat n - 1),
      table_size = of_nat n,
      free_count = 1024 - of_nat k\<rparr>"

definition assign_slot :: "nat \<Rightarrow> hmgr_op" where
  "assign_slot i = Assign 5 (HMGRENTRY_TYPE_OBJECT 1) (build_handle (of_nat i) 1 0) zeroed"

definition assign_ops :: "nat \<Rightarrow> hmgr_op list" where
  "assign_ops k = map assign_slot [0..<k]"

definition miscount_ops :: "nat \<Rightarrow> hmgr_op list" where
  "miscount_ops k = assign_slot 1 # assign_slot 0 # map assign_slot [2..<k]"

text \<open>
  The entries after the first operation of \<open>miscount_ops\<close>, the assignment of slot 1 of
  a new table: 1025 entries, slot 1 occupied, the other 1024 the free list.
\<close>

definition miscount_entry :: "nat \<Rightarrow> hmgrentry" where
  "miscount_entry j =
     (if j = 1 then assigned_entry 5 (HMGRENTRY_TYPE_OBJECT 1) 1
      else new_free_entry
        (if j = 0 then HMGRTABLE_INVALID_INDEX else if j = 2 then 0 else of_nat (j - 1))
        (if j = 0 then 2 else if j = 1024 then HMGRTABLE_INVALID_INDEX else of_nat j + 1)
        zero_entry)"

section \<open>Basic facts\<close>

lemmas handle_params =
  HMGRHANDLE_INSTANCE_BITS_def HMGRHANDLE_INDEX_BITS_def HMGRHANDLE_UNIQUE_BITS_def
  HMGRHANDLE_INSTANCE_SHIFT_def HMGRHANDLE_INDEX_SHIFT_def HMGRHANDLE_UNIQUE_SHIFT_def

lemma handle_masks:
  "HMGRHANDLE_INSTANCE_MASK = mask 6"
  "HMGRHANDLE_INDEX_MASK = push_bit 6 (mask 24)"
  "HMGRHANDLE_UNIQUE_MASK = push_bit 30 (mask 2)"
  by (simp_all add: handle_params HMGRHANDLE_INSTANCE_MASK_def HMGRHANDLE_INDEX_MASK_def
      HMGRHANDLE_UNIQUE_MASK_def mask_eq_exp_minus_1)

lemma table_consts:
  "HMGRHANDLE_INDEX_MAX = 0xFFFFFF"
  "HMGRHANDLE_UNIQUE_MAX = 3"
  "HMGRTABLE_INVALID_INDEX = 0xFF000000"
  "HMGRTABLE_MIN_FREE_ENTRIES = 128"
  "HMGRTABLE_SIZE_INCREMENT = 1024"
  "table_size_increment = 1024"
  by (simp_all add: handle_params HMGRHANDLE_INDEX_MAX_def HMGRHANDLE_UNIQUE_MAX_def
      HMGRTABLE_INVALID_INDEX_def HMGRTABLE_MIN_FREE_ENTRIES_def HMGRTABLE_SIZE_INCREMENT_def
      table_size_increment_def)

lemma get_index_build_handle: "get_index (build_handle i u n) = take_bit 24 i"
  unfolding get_index_def build_handle_def Let_def handle_masks handle_params
  by (rule bit_word_eqI) (auto simp add: bit_simps)

lemma get_unique_build_handle: "get_unique (build_handle i u n) = take_bit 2 u"
  unfolding get_unique_def build_handle_def Let_def handle_masks handle_params
  by (rule bit_word_eqI) (auto simp add: bit_simps)

lemma get_instance_build_handle: "get_instance (build_handle i u n) = take_bit 6 n"
  unfolding get_instance_def build_handle_def Let_def handle_masks handle_params
  by (rule bit_word_eqI) (auto simp add: bit_simps)

lemma take_bit_uint_id: "(w :: uint) < 2 ^ n \<Longrightarrow> take_bit n w = w"
  by (simp add: take_bit_eq_mask less_mask_eq)

lemma prev_set_prev [simp]: "prev_free_index (set_prev_free_index v e) = v"
  unfolding prev_free_index_def set_prev_free_index_def
  by (rule bit_word_eqI) (auto simp add: bit_simps)

lemma next_set_prev [simp]: "next_free_index (set_prev_free_index v e) = next_free_index e"
  unfolding next_free_index_def set_prev_free_index_def
  by (rule bit_word_eqI) (auto simp add: bit_simps dest: bit_imp_le_length)

lemma next_set_next [simp]: "next_free_index (set_next_free_index v e) = v"
  unfolding next_free_index_def set_next_free_index_def
  by (rule bit_word_eqI) (auto simp add: bit_simps)

lemma prev_set_next [simp]: "prev_free_index (set_next_free_index v e) = prev_free_index e"
  unfolding prev_free_index_def set_next_free_index_def
  by (rule bit_word_eqI) (auto simp add: bit_simps)

lemma set_prev_fields [simp]:
  "type (set_prev_free_index v e) = type e"
  "unique (set_prev_free_index v e) = unique e"
  "instance_field (set_prev_free_index v e) = instance_field e"
  "destroyed (set_prev_free_index v e) = destroyed e"
  by (simp_all add: set_prev_free_index_def)

lemma set_next_fields [simp]:
  "type (set_next_free_index v e) = type e"
  "unique (set_next_free_index v e) = unique e"
  "instance_field (set_next_free_index v e) = instance_field e"
  "destroyed (set_next_free_index v e) = destroyed e"
  by (simp_all add: set_next_free_index_def)

lemma links_object_update [simp]:
  "prev_free_index (e\<lparr>type := a\<rparr>) = prev_free_index e"
  "prev_free_index (e\<lparr>unique := b\<rparr>) = prev_free_index e"
  "prev_free_index (e\<lparr>instance_field := c\<rparr>) = prev_free_index e"
  "prev_free_index (e\<lparr>destroyed := d\<rparr>) = prev_free_index e"
  "next_free_index (e\<lparr>type := a\<rparr>) = next_free_index e"
  "next_free_index (e\<lparr>unique := b\<rparr>) = next_free_index e"
  "next_free_index (e\<lparr>instance_field := c\<rparr>) = next_free_index e"
  "next_free_index (e\<lparr>destroyed := d\<rparr>) = next_free_index e"
  by (simp_all add: prev_free_index_def next_free_index_def)

lemma entry_update_Some:
  "entry_update table i f = Some table' \<longleftrightarrow>
     (\<exists>es. entry_table table = Some es \<and> unat i < length es \<and>
           table' = table\<lparr>entry_table := Some (es[unat i := f (es ! unat i)])\<rparr>)"
  by (auto simp: entry_update_def split: option.splits)

lemma entry_at_Some:
  "entry_at table i = Some e \<longleftrightarrow>
     (\<exists>es. entry_table table = Some es \<and> unat i < length es \<and> e = es ! unat i)"
  by (auto simp: entry_at_def split: option.splits)

lemma handle_mask_values:
  "HMGRHANDLE_INSTANCE_MASK = 0x3F"
  "HMGRHANDLE_INDEX_MASK = 0x3FFFFFC0"
  "HMGRHANDLE_UNIQUE_MASK = 0xC0000000"
  by (simp_all add: handle_params HMGRHANDLE_INSTANCE_MASK_def HMGRHANDLE_INDEX_MASK_def
      HMGRHANDLE_UNIQUE_MASK_def)

subsection \<open>The growth loop\<close>

declare expand_table_loop.simps [simp del]

lemma length_expand_entries [simp]: "length (expand_entries i n p es) = length es"
  by (simp add: expand_entries_def)

lemma nth_expand_entries:
  "k < length es \<Longrightarrow> expand_entries i n p es ! k =
     (if unat i \<le> k \<and> k < unat n
      then new_free_entry (if k = unat i then p else of_nat (k - 1)) (of_nat k + 1) (es ! k)
      else es ! k)"
  by (simp add: expand_entries_def)

lemma expand_table_loop_closed:
  "i \<le> n \<Longrightarrow> unat n \<le> length es \<Longrightarrow>
   expand_table_loop i n p es = Some (expand_entries i n p es, n)"
proof (induction i n p es rule: expand_table_loop.induct)
  case (1 i n p es)
  show ?case
  proof (cases "i < n")
    case False
    with "1.prems" have "i = n" by simp
    moreover have "expand_entries n n p es = es"
      by (rule nth_equalityI) (auto simp add: nth_expand_entries)
    ultimately show ?thesis
      by (simp add: expand_table_loop.simps [of n n])
  next
    case True
    then have ui: "unat i < unat n" and us: "unat (i + 1) = unat i + 1"
      by unat_arith+
    from ui "1.prems" have inb: "unat i < length es" by simp
    let ?e = "new_free_entry p (i + 1) (es ! unat i)"
    have le: "i + 1 \<le> n" using True by (rule inc_le)
    have step: "expand_table_loop i n p es = expand_table_loop (i + 1) n i (es[unat i := ?e])"
      by (subst expand_table_loop.simps) (simp add: True inb new_free_entry_def Let_def)
    have IH: "expand_table_loop (i + 1) n i (es[unat i := ?e]) =
        Some (expand_entries (i + 1) n i (es[unat i := ?e]), n)"
      using "1.IH" [OF True inb refl refl refl refl refl refl] le "1.prems"(2)
      by (simp add: new_free_entry_def)
    have "expand_entries (i + 1) n i (es[unat i := ?e]) = expand_entries i n p es"
    proof (rule nth_equalityI)
      show "length (expand_entries (i + 1) n i (es[unat i := ?e])) = length (expand_entries i n p es)"
        by simp
    next
      fix k assume "k < length (expand_entries (i + 1) n i (es[unat i := ?e]))"
      then have k: "k < length es" by simp
      show "expand_entries (i + 1) n i (es[unat i := ?e]) ! k = expand_entries i n p es ! k"
      proof -
        consider "k < unat i" | "k = unat i" | "k = unat i + 1" | "unat i + 1 < k"
          by linarith
        then show ?thesis
        proof cases
          case 2
          then show ?thesis using k ui by (simp add: nth_expand_entries us)
        next
          case 3
          then show ?thesis using k ui by (simp add: nth_expand_entries us)
        qed (use k ui in \<open>simp_all add: nth_expand_entries us\<close>)
      qed
    qed
    with step IH show ?thesis by simp
  qed
qed

subsection \<open>Growing the table\<close>

lemma entries_of_simps [simp]:
  "entry_table t = Some es \<Longrightarrow> entries_of t = es"
  "entry_table t = None \<Longrightarrow> entries_of t = []"
  by (simp_all add: entries_of_def)

lemma block_ok_length: "block_ok t \<Longrightarrow> length (entries_of t) = unat (table_size t)"
  by (auto simp: block_ok_def entries_of_def split: option.splits)

lemma length_grown_entries:
  "block_ok t \<Longrightarrow> table_size t \<le> n \<Longrightarrow> length (grown_entries t n fresh) = unat n"
  by (simp add: grown_entries_def Let_def block_ok_length word_le_nat_alt)

lemma expand_table_fill_eq:
  assumes ok: "block_ok t" and lt: "table_size t < n"
    and tl: "free_count t = 0 \<or> free_handle_list_tail t < table_size t"
  shows "expand_table_fill t n (map fresh [0..<unat n]) =
    Some (t\<lparr>entry_table := Some (grown_entries t n fresh),
             free_handle_list_head :=
               (if entry_table t = None then 0
                else if free_handle_list_head t = HMGRTABLE_INVALID_INDEX then table_size t
                else free_handle_list_head t),
             free_handle_list_tail := n - 1,
             table_size := n,
             free_count := free_count t + table_size_increment\<rparr>)"
proof -
  let ?s = "table_size t"
  let ?es0 = "entries_of t @ map fresh [unat ?s..<unat n]"
  from lt have un: "unat ?s < unat n" by (simp add: word_less_nat_alt)
  then have n1: "unat (n - 1) = unat n - 1" "unat (n - 1) < unat n"
    by unat_arith+
  have len0: "length ?es0 = unat n"
    using ok un by (simp add: block_ok_length)
  have loop: "expand_table_loop ?s n (free_handle_list_tail t) ?es0 =
      Some (expand_entries ?s n (free_handle_list_tail t) ?es0, n)"
    using lt len0 by (intro expand_table_loop_closed) simp_all
  have tl': "free_count t \<noteq> 0 \<Longrightarrow> unat (free_handle_list_tail t) < unat n"
    using tl un by (auto simp: word_less_nat_alt)
  have drop_eq: "drop (unat ?s) (map fresh [0..<unat n]) = map fresh [unat ?s..<unat n]"
    by (simp add: drop_map)
  show ?thesis
  proof (cases "entry_table t")
    case None
    with ok have s0: "?s = 0" by (simp add: block_ok_def)
    have "HMGRTABLE_INVALID_INDEX \<noteq> 0" by (simp add: table_consts)
    with None s0 loop n1 len0 tl' show ?thesis
      by (auto simp: expand_table_fill_def grown_entries_def Let_def entry_update_def)
  next
    case (Some old)
    with ok have lo: "length old = unat ?s" by (simp add: block_ok_def)
    with Some loop n1 len0 tl' un drop_eq show ?thesis
      by (auto simp: expand_table_fill_def grown_entries_def Let_def entry_update_def
          memcpy_entries_def)
  qed
qed

lemma unat_add_increment:
  assumes "(s :: uint) \<le> HMGRHANDLE_INDEX_MAX"
  shows "unat (s + table_size_increment) = unat s + 1024"
proof -
  from assms have "unat s \<le> 16777215"
    by (simp add: word_le_nat_alt table_consts)
  then have "unat s + unat (1024 :: uint) < 2 ^ LENGTH(32)" by simp
  then have "unat (s + 1024) = unat s + unat (1024 :: uint)"
    by (simp only: unat_add_lem [THEN iffD1])
  then show ?thesis by (simp add: table_consts)
qed

lemma expand_target_gt:
  assumes "table_size t \<le> HMGRHANDLE_INDEX_MAX"
  shows "table_size t < expand_target t n"
proof -
  have "table_size t < table_size t + table_size_increment"
    by (simp add: word_less_nat_alt unat_add_increment [OF assms])
  then show ?thesis
    by (auto simp: expand_target_def Let_def)
qed

lemma expand_table_alt:
  "expand_table t n m =
     (if free_count t = 0 then Some True
      else map_option (\<lambda>e. next_free_index e = HMGRTABLE_INVALID_INDEX)
             (entry_at t (free_handle_list_tail t))) \<bind>
     (\<lambda>tail_is_last.
        if \<not> tail_is_last then Some (t, False)
        else if HMGRHANDLE_INDEX_MAX < expand_target t n then Some (t, False)
        else case m of
               None \<Rightarrow> Some (t, False)
             | Some fresh \<Rightarrow>
                 map_option (\<lambda>table. (table, True))
                   (expand_table_fill t (expand_target t n)
                      (map fresh [0..<unat (expand_target t n)])))"
  unfolding expand_table_def expand_target_def Let_def by (rule refl)

lemma expand_table_False: "expand_table t n m = Some (t', False) \<Longrightarrow> t' = t"
  by (auto simp: expand_table_alt split: if_splits option.splits Option.bind_splits)

lemma expand_table_fails:
  assumes "free_count t = 0 \<or> entry_at t (free_handle_list_tail t) \<noteq> None"
    and "HMGRHANDLE_INDEX_MAX < expand_target t n \<or> m = None"
  shows "expand_table t n m = Some (t, False)"
  using assms
  by (auto simp: expand_table_alt split: option.splits Option.bind_splits)

lemma expand_table_eq:
  assumes ok: "block_ok t"
    and tl: "free_count t = 0 \<or>
       (free_handle_list_tail t < table_size t \<and>
        next_free_index (entries_of t ! unat (free_handle_list_tail t)) = HMGRTABLE_INVALID_INDEX)"
    and le: "expand_target t n \<le> HMGRHANDLE_INDEX_MAX"
  shows "expand_table t n (Some fresh) =
    Some (t\<lparr>entry_table := Some (grown_entries t (expand_target t n) fresh),
             free_handle_list_head :=
               (if entry_table t = None then 0
                else if free_handle_list_head t = HMGRTABLE_INVALID_INDEX then table_size t
                else free_handle_list_head t),
             free_handle_list_tail := expand_target t n - 1,
             table_size := expand_target t n,
             free_count := free_count t + table_size_increment\<rparr>, True)"
proof -
  from ok have "table_size t \<le> HMGRHANDLE_INDEX_MAX" by (simp add: block_ok_def)
  then have lt: "table_size t < expand_target t n" by (rule expand_target_gt)
  from tl have tl': "free_count t = 0 \<or> free_handle_list_tail t < table_size t" by auto
  have chk: "free_count t \<noteq> 0 \<Longrightarrow>
      entry_at t (free_handle_list_tail t) = Some (entries_of t ! unat (free_handle_list_tail t))"
    using tl ok
    by (auto simp: entry_at_def block_ok_def word_less_nat_alt split: option.splits)
  have "expand_table t n (Some fresh) =
      map_option (\<lambda>table. (table, True))
        (expand_table_fill t (expand_target t n) (map fresh [0..<unat (expand_target t n)]))"
    using tl le chk
    by (auto simp: expand_table_alt not_less split: option.splits Option.bind_splits)
  then show ?thesis
    by (simp add: expand_table_fill_eq [OF ok lt tl'])
qed

lemma expand_table_True:
  assumes ok: "block_ok t" and ex: "expand_table t n m = Some (t', True)"
  shows "\<exists>fresh. m = Some fresh \<and> expand_target t n \<le> HMGRHANDLE_INDEX_MAX \<and>
    t' = t\<lparr>entry_table := Some (grown_entries t (expand_target t n) fresh),
             free_handle_list_head :=
               (if entry_table t = None then 0
                else if free_handle_list_head t = HMGRTABLE_INVALID_INDEX then table_size t
                else free_handle_list_head t),
             free_handle_list_tail := expand_target t n - 1,
             table_size := expand_target t n,
             free_count := free_count t + table_size_increment\<rparr>"
proof -
  from ex obtain fresh where m: "m = Some fresh"
    by (cases m) (auto simp: expand_table_alt split: if_splits option.splits Option.bind_splits)
  from ex have le: "expand_target t n \<le> HMGRHANDLE_INDEX_MAX"
    by (auto simp: expand_table_alt not_less split: if_splits option.splits Option.bind_splits)
  from ex have tl: "free_count t = 0 \<or>
       (free_handle_list_tail t < table_size t \<and>
        next_free_index (entries_of t ! unat (free_handle_list_tail t)) = HMGRTABLE_INVALID_INDEX)"
    using ok
    by (auto simp: expand_table_alt entry_at_def block_ok_def word_less_nat_alt
        split: if_splits option.splits Option.bind_splits)
  from expand_table_eq [OF ok tl le, of fresh] ex m le show ?thesis by auto
qed

lemma set_next_set_next:
  "set_next_free_index a (set_next_free_index b e) = set_next_free_index a e"
proof -
  have "push_bit 32 (ucast a) OR take_bit 32 (push_bit 32 (ucast b) OR take_bit 32 x) =
      push_bit 32 (ucast a) OR take_bit 32 x" for x :: pointer
    by (rule bit_word_eqI) (auto simp: bit_simps)
  then show ?thesis
    by (simp add: set_next_free_index_def)
qed

lemma set_next_record_update:
  "set_next_free_index a (e\<lparr>type := x\<rparr>) = (set_next_free_index a e)\<lparr>type := x\<rparr>"
  "set_next_free_index a (e\<lparr>unique := y\<rparr>) = (set_next_free_index a e)\<lparr>unique := y\<rparr>"
  "set_next_free_index a (e\<lparr>instance_field := z\<rparr>) = (set_next_free_index a e)\<lparr>instance_field := z\<rparr>"
  "set_next_free_index a (e\<lparr>destroyed := d\<rparr>) = (set_next_free_index a e)\<lparr>destroyed := d\<rparr>"
  by (simp_all add: set_next_free_index_def)

lemma nth_grown_entries_old:
  assumes ok: "block_ok t" and lt: "table_size t < n" and k: "k < unat (table_size t)"
  shows "grown_entries t n fresh ! k =
    (if free_count t \<noteq> 0 \<and> k = unat (free_handle_list_tail t)
     then set_next_free_index (table_size t) (entries_of t ! k) else entries_of t ! k)"
proof -
  from lt have un: "unat (table_size t) < unat n" by (simp add: word_less_nat_alt)
  then have n1: "unat (n - 1) = unat n - 1" by unat_arith
  show ?thesis using k un n1 ok
    by (auto simp: grown_entries_def Let_def nth_expand_entries block_ok_length nth_append)
qed

lemma nth_grown_entries_new:
  assumes ok: "block_ok t" and lt: "table_size t < n"
    and k: "unat (table_size t) \<le> k" "k < unat n"
    and tl: "free_count t = 0 \<or> free_handle_list_tail t < table_size t"
  shows "grown_entries t n fresh ! k =
    new_free_entry (if k = unat (table_size t) then free_handle_list_tail t else of_nat (k - 1))
      (if k = unat n - 1 then HMGRTABLE_INVALID_INDEX else of_nat k + 1) (fresh k)"
proof -
  let ?s = "table_size t"
  let ?tl = "free_handle_list_tail t"
  let ?es0 = "entries_of t @ map fresh [unat ?s..<unat n]"
  let ?es1 = "expand_entries ?s n ?tl ?es0"
  let ?es2 = "?es1[unat (n - 1) := set_next_free_index HMGRTABLE_INVALID_INDEX (?es1 ! unat (n - 1))]"
  let ?p = "if k = unat ?s then ?tl else of_nat (k - 1)"
  from lt have un: "unat ?s < unat n" by (simp add: word_less_nat_alt)
  then have n1: "unat (n - 1) = unat n - 1" by unat_arith
  have len0: "length ?es0 = unat n"
    using ok un by (simp add: block_ok_length)
  have e0: "?es0 ! k = fresh k"
    using k ok by (simp add: nth_append block_ok_length)
  have e1: "?es1 ! k = new_free_entry ?p (of_nat k + 1) (fresh k)"
    using k len0 e0 by (simp add: nth_expand_entries)
  have sn: "set_next_free_index a (new_free_entry p b e) = new_free_entry p a e" for a p b e
    by (simp add: new_free_entry_def set_next_set_next set_next_record_update)
  have e2: "?es2 ! k = new_free_entry ?p
      (if k = unat n - 1 then HMGRTABLE_INVALID_INDEX else of_nat k + 1) (fresh k)"
  proof (cases "k = unat n - 1")
    case True
    have a: "?es2 ! k = set_next_free_index HMGRTABLE_INVALID_INDEX (?es1 ! k)"
      using True k len0 n1 by simp
    have b: "set_next_free_index HMGRTABLE_INVALID_INDEX (?es1 ! k) =
        new_free_entry ?p HMGRTABLE_INVALID_INDEX (fresh k)"
      by (simp only: e1 sn)
    have c: "(if k = unat n - 1 then HMGRTABLE_INVALID_INDEX else of_nat k + 1) =
        HMGRTABLE_INVALID_INDEX"
      using True by simp
    show ?thesis by (simp only: a b c)
  next
    case False
    have a: "?es2 ! k = ?es1 ! k" using False n1 by simp
    have c: "(if k = unat n - 1 then HMGRTABLE_INVALID_INDEX else of_nat k + 1) =
        (of_nat k + 1 :: uint)"
      using False by simp
    show ?thesis by (simp only: a e1 c)
  qed
  show ?thesis
  proof (cases "free_count t = 0")
    case True
    then have "grown_entries t n fresh = ?es2"
      by (simp add: grown_entries_def Let_def)
    with e2 show ?thesis by simp
  next
    case False
    with tl have "unat ?tl < unat ?s" by (simp add: word_less_nat_alt)
    with k have ne: "unat ?tl \<noteq> k" by simp
    from False have "grown_entries t n fresh =
        ?es2[unat ?tl := set_next_free_index ?s (?es2 ! unat ?tl)]"
      by (simp add: grown_entries_def Let_def)
    then have "grown_entries t n fresh ! k = ?es2 ! k"
      using ne by simp
    with e2 show ?thesis by simp
  qed
qed

subsection \<open>The first growth of a table\<close>

lemma block_ok_init: "block_ok (hmgrtable_init p)"
  by (simp add: block_ok_def hmgrtable_init_def)

lemma expand_target_init:
  "expand_target (hmgrtable_init p) n = (if 1024 < n then n else 1024)"
  by (simp add: expand_target_def hmgrtable_init_def table_consts)

lemma expand_table_init:
  assumes "n \<le> HMGRHANDLE_INDEX_MAX"
  shows "expand_table (hmgrtable_init p) n (Some fresh) =
    Some (fresh_table p (if 1024 < n then n else 1024) fresh, True)"
proof -
  have le: "expand_target (hmgrtable_init p) n \<le> HMGRHANDLE_INDEX_MAX"
    using assms by (simp add: expand_target_init table_consts)
  have fc: "free_count (hmgrtable_init p) = 0 \<or>
       (free_handle_list_tail (hmgrtable_init p) < table_size (hmgrtable_init p) \<and>
        next_free_index (entries_of (hmgrtable_init p) ! unat (free_handle_list_tail (hmgrtable_init p))) = HMGRTABLE_INVALID_INDEX)"
    by (simp add: hmgrtable_init_def)
  show ?thesis
    unfolding expand_table_eq [OF block_ok_init fc le] expand_target_init
    by (simp add: hmgrtable_init_def fresh_table_def table_consts)
qed

lemma fresh_table_simps [simp]:
  "process (fresh_table p n f) = p"
  "free_handle_list_head (fresh_table p n f) = 0"
  "free_handle_list_tail (fresh_table p n f) = n - 1"
  "table_size (fresh_table p n f) = n"
  "free_count (fresh_table p n f) = 1024"
  "entry_table (fresh_table p n f) = Some (grown_entries (hmgrtable_init p) n f)"
  by (simp_all add: fresh_table_def)

lemma length_fresh_entries [simp]:
  "length (grown_entries (hmgrtable_init p) n f) = unat n"
  by (rule length_grown_entries [OF block_ok_init]) (simp add: hmgrtable_init_def)

lemma nth_fresh_entries:
  assumes "k < unat n"
  shows "grown_entries (hmgrtable_init p) n f ! k =
    new_free_entry (if k = 0 then HMGRTABLE_INVALID_INDEX else of_nat (k - 1))
      (if k = unat n - 1 then HMGRTABLE_INVALID_INDEX else of_nat k + 1) (f k)"
proof -
  from assms have "0 < n" by (simp add: word_less_nat_alt)
  then have lt: "table_size (hmgrtable_init p) < n" by (simp add: hmgrtable_init_def)
  have "grown_entries (hmgrtable_init p) n f ! k =
    new_free_entry (if k = unat (table_size (hmgrtable_init p))
        then free_handle_list_tail (hmgrtable_init p) else of_nat (k - 1))
      (if k = unat n - 1 then HMGRTABLE_INVALID_INDEX else of_nat k + 1) (f k)"
    by (rule nth_grown_entries_new [OF block_ok_init lt]) (use assms in \<open>simp_all add: hmgrtable_init_def\<close>)
  then show ?thesis by (simp add: hmgrtable_init_def)
qed

lemma new_free_entry_simps [simp]:
  "type (new_free_entry p n e) = HMGRENTRY_TYPE_FREE"
  "unique (new_free_entry p n e) = 1"
  "instance_field (new_free_entry p n e) = 0"
  "destroyed (new_free_entry p n e) = destroyed e"
  "prev_free_index (new_free_entry p n e) = p"
  "next_free_index (new_free_entry p n e) = n"
  by (simp_all add: new_free_entry_def)

lemma hmgrtable_init_simps [simp]:
  "process (hmgrtable_init p) = p"
  "entry_table (hmgrtable_init p) = None"
  "free_handle_list_head (hmgrtable_init p) = HMGRTABLE_INVALID_INDEX"
  "free_handle_list_tail (hmgrtable_init p) = HMGRTABLE_INVALID_INDEX"
  "table_size (hmgrtable_init p) = 0"
  "free_count (hmgrtable_init p) = 0"
  by (simp_all add: hmgrtable_init_def)

lemma entry_all_updates:
  "e\<lparr>object := a, type := b, instance_field := c, unique := d, destroyed := f\<rparr> =
   \<lparr>object = a, type = b, unique = d, instance_field = c, destroyed = f\<rparr>"
  by (cases e) simp

lemma assign_first:
  assumes "get_index h = 0"
  shows "hmgrtable_assign_handle (hmgrtable_init p) obj t h (Some f) =
   Some ((fresh_table p 1024 f)
      \<lparr>entry_table := Some ((grown_entries (hmgrtable_init p) 1024 f)
          [1 := set_prev_free_index HMGRTABLE_INVALID_INDEX (grown_entries (hmgrtable_init p) 1024 f ! 1),
           0 := assigned_entry obj t (ucast (get_unique h))]),
       free_handle_list_head := 1, free_count := 1023\<rparr>, STATUS_SUCCESS)"
  apply (simp add: hmgrtable_assign_handle_def Let_def assms expand_table_init)
  apply (simp add: table_consts expand_table_init)
  apply (simp add: entry_at_def nth_fresh_entries entry_update_def assigned_entry_def entry_all_updates fresh_table_def)
  apply (simp add: table_consts word_le_nat_alt)
  done

subsection \<open>Validation, free and assign\<close>

lemma is_handle_valid_True:
  "is_handle_valid table h ign t = Some True \<longleftrightarrow>
     get_index h < table_size table \<and>
     (\<exists>e. entry_at table (get_index h) = Some e \<and>
        get_unique h = ucast (unique e) \<and> (destroyed e \<longrightarrow> ign) \<and>
        type e \<noteq> HMGRENTRY_TYPE_FREE \<and> (t = HMGRENTRY_TYPE_FREE \<or> t = type e))"
  by (auto simp: is_handle_valid_def Let_def not_le split: Option.bind_splits if_splits)

lemma entry_update_fields:
  assumes "entry_update t i f = Some t'"
  shows "process t' = process t" "free_handle_list_head t' = free_handle_list_head t"
    "free_handle_list_tail t' = free_handle_list_tail t" "table_size t' = table_size t"
    "free_count t' = free_count t"
  using assms by (auto simp: entry_update_Some)

lemma entry_at_entry_update:
  assumes "entry_update t i f = Some t'"
  shows "entry_at t' j = (if j = i then map_option f (entry_at t i) else entry_at t j)"
  using assms by (auto simp: entry_update_Some entry_at_def word_unat_eq_iff)

lemma entry_update_twice:
  "entry_update t i f \<bind> (\<lambda>t. entry_update t i g) = entry_update t i (g \<circ> f)"
  by (auto simp: entry_update_def split: option.splits)

lemma entry_update_field_update [simp]:
  "entry_update (t\<lparr>free_count := c\<rparr>) i f = map_option (free_count_update (\<lambda>_. c)) (entry_update t i f)"
  "entry_update (t\<lparr>free_handle_list_head := c\<rparr>) i f = map_option (free_handle_list_head_update (\<lambda>_. c)) (entry_update t i f)"
  "entry_update (t\<lparr>free_handle_list_tail := c\<rparr>) i f = map_option (free_handle_list_tail_update (\<lambda>_. c)) (entry_update t i f)"
  by (auto simp: entry_update_def split: option.splits)

lemma free_handle_eq:
  assumes "is_handle_valid table h True t = Some True"
  shows "hmgrtable_free_handle table t h =
    entry_update (table\<lparr>free_count := free_count table + 1\<rparr>) (get_index h)
      (\<lambda>e. set_prev_free_index (free_handle_list_tail table)
             (set_next_free_index HMGRTABLE_INVALID_INDEX
                (e\<lparr>type := HMGRENTRY_TYPE_FREE, destroyed := False, unique := 2\<rparr>))) \<bind>
    (\<lambda>table1. entry_update table1
        (free_handle_list_tail table) (set_next_free_index (get_index h))) \<bind>
    (\<lambda>table2. Some (table2\<lparr>free_handle_list_tail := get_index h\<rparr>))"
  using assms
  apply (simp add: hmgrtable_free_handle_def Let_def)
  apply (auto simp: entry_update_def is_handle_valid_True entry_at_Some table_consts split: option.splits)
  done

lemma free_handle_generation:
  assumes valid: "is_handle_valid table h True t = Some True"
    and free: "hmgrtable_free_handle table t h = Some table'"
  shows "map_option unique (entry_at table' (get_index h)) = Some 2"
  using free unfolding free_handle_eq [OF valid]
  by (auto simp: entry_update_def entry_at_def nth_list_update split: option.splits if_splits Option.bind_splits)

lemma free_handle_faults_iff:
  assumes valid: "is_handle_valid table h True t = Some True"
  shows "hmgrtable_free_handle table t h = None \<longleftrightarrow>
    entry_at table (free_handle_list_tail table) = None"
  using valid unfolding free_handle_eq [OF valid]
  by (auto simp: entry_update_def entry_at_def is_handle_valid_True split: option.splits if_splits Option.bind_splits)

lemma entry_at_block_ok:
  "block_ok t \<Longrightarrow> entry_at t i \<noteq> None \<longleftrightarrow> i < table_size t"
  by (auto simp: block_ok_def entry_at_def word_less_nat_alt split: option.splits)

lemma assign_busy:
  assumes "get_index h < table_size table"
    and "entry_at table (get_index h) = Some e"
    and "type e \<noteq> HMGRENTRY_TYPE_FREE"
  shows "hmgrtable_assign_handle table obj t h mem = Some (table, STATUS_INVALID_PARAMETER)"
proof -
  from assms(1) have "\<not> table_size table \<le> get_index h" by simp
  with assms(2,3) show ?thesis
    by (simp add: hmgrtable_assign_handle_def Let_def)
qed

subsection \<open>Two concrete tables\<close>

lemma assign_first_table:
  assumes "get_index h = 0"
  shows "hmgrtable_assign_handle (hmgrtable_init p) obj t h (Some f) =
    Some (assigned_table p obj t (ucast (get_unique h)) f, STATUS_SUCCESS)"
  by (simp add: assign_first [OF assms] assigned_table_def fresh_table_def table_consts)

lemma assigned_table_simps [simp]:
  "free_handle_list_head (assigned_table p obj t g f) = 1"
  "free_handle_list_tail (assigned_table p obj t g f) = 1023"
  "table_size (assigned_table p obj t g f) = 1024"
  "free_count (assigned_table p obj t g f) = 1023"
  by (simp_all add: assigned_table_def)

lemma block_ok_assigned_table: "block_ok (assigned_table p obj t g f)"
  by (simp add: block_ok_def assigned_table_def table_consts)

lemma entry_at_assigned_table_0:
  "entry_at (assigned_table p obj t g f) 0 = Some (assigned_entry obj t g)"
  by (simp add: entry_at_def assigned_table_def)

lemma assigned_entry_simps [simp]:
  "object (assigned_entry obj t g) = obj"
  "type (assigned_entry obj t g) = t"
  "unique (assigned_entry obj t g) = g"
  "instance_field (assigned_entry obj t g) = 0"
  "destroyed (assigned_entry obj t g) = False"
  by (simp_all add: assigned_entry_def)

lemma handle_values:
  "get_index (build_handle 0 g 0) = 0"
  "get_unique (build_handle 0 1 0) = 1"
  "get_unique (build_handle 0 2 0) = 2"
  "get_unique (build_handle 0 3 0) = 3"
  by (simp_all add: get_index_build_handle get_unique_build_handle)

lemma is_handle_valid_assigned_table:
  assumes "get_index h = 0"
  shows "is_handle_valid (assigned_table p obj t g f) h ign t' =
    Some (get_unique h = ucast g \<and> t \<noteq> HMGRENTRY_TYPE_FREE \<and>
          (t' = HMGRENTRY_TYPE_FREE \<or> t' = t))"
  by (auto simp add: is_handle_valid_def Let_def assms entry_at_assigned_table_0)

subsection \<open>Allocation\<close>

lemma alloc_handle_eq:
  "hmgrtable_alloc_handle table obj t make_valid mem =
     (if free_count table \<le> HMGRTABLE_MIN_FREE_ENTRIES
      then expand_table table 0 mem else Some (table, True)) \<bind>
     (\<lambda>(table, expanded). if \<not> expanded then Some (table, 0)
        else alloc_pop table obj t make_valid)"
  unfolding hmgrtable_alloc_handle_def alloc_pop_def by (rule refl)

lemma alloc_pop_success:
  assumes pop: "alloc_pop T obj t mv = Some (T', h)" and h: "h \<noteq> 0"
  shows "free_handle_list_head T < table_size T \<and>
    table_size T' = table_size T \<and> free_count T' = free_count T - 1 \<and>
    (\<exists>e. entry_at T' (free_handle_list_head T) = Some e \<and> object e = obj \<and> type e = t \<and>
         destroyed e = (\<not> mv) \<and> instance_field e = 0 \<and>
         h = build_handle (free_handle_list_head T) (ucast (unique e)) 0)"
  using pop h
  apply (simp add: alloc_pop_def Let_def split: if_splits Option.bind_splits)
  apply (auto simp: entry_update_def entry_at_def nth_list_update not_le split: option.splits if_splits)
  done


lemma expand_table_True_sizes:
  assumes "expand_table t n m = Some (t', True)"
  shows "table_size t' = expand_target t n \<and> expand_target t n \<le> HMGRHANDLE_INDEX_MAX \<and>
    free_count t' = free_count t + table_size_increment"
  using assms
  apply (simp add: expand_table_alt split: if_splits Option.bind_splits option.splits)
  apply (auto simp: expand_table_fill_def Let_def entry_update_def not_less
      split: if_splits Option.bind_splits option.splits prod.splits)
  done

lemma entry_four_updates:
  "e\<lparr>object := a, type := b, instance_field := c, destroyed := d\<rparr> =
   \<lparr>object = a, type = b, unique = unique e, instance_field = c, destroyed = d\<rparr>"
  by (cases e) simp

lemma alloc_first:
  "hmgrtable_alloc_handle (hmgrtable_init p) obj t mv (Some f) =
     Some (allocated_table p obj t mv f, build_handle 0 1 0)"
  apply (simp add: alloc_handle_eq table_consts expand_table_init)
  apply (simp add: alloc_pop_def Let_def)
  apply (simp add: entry_at_def nth_fresh_entries entry_update_def fresh_table_def
      allocated_table_def table_consts word_le_nat_alt entry_four_updates)
  done

subsection \<open>Lookup after allocation\<close>

lemma allocated_table_simps [simp]:
  "free_handle_list_head (allocated_table p obj t mv f) = 1"
  "free_handle_list_tail (allocated_table p obj t mv f) = 1023"
  "table_size (allocated_table p obj t mv f) = 1024"
  "free_count (allocated_table p obj t mv f) = 1023"
  by (simp_all add: allocated_table_def)

lemma entry_at_allocated_table_0:
  "entry_at (allocated_table p obj t mv f) 0 =
     Some \<lparr>object = obj, type = t, unique = 1, instance_field = 0, destroyed = \<not> mv\<rparr>"
  by (simp add: entry_at_def allocated_table_def)

lemma take_bit_ucast_unique: "take_bit 2 (ucast (u :: 2 word) :: uint) = ucast u"
  by (rule bit_word_eqI) (auto simp: bit_simps dest: bit_imp_le_length)

lemma get_unique_build_handle_ucast:
  "get_unique (build_handle i (ucast (u :: 2 word)) n) = ucast u"
  by (simp add: get_unique_build_handle take_bit_ucast_unique)

lemma get_index_build_handle_le:
  assumes "i \<le> HMGRHANDLE_INDEX_MAX"
  shows "get_index (build_handle i u n) = i"
proof -
  from assms have "i < 2 ^ 24"
    by (simp add: table_consts word_le_nat_alt word_less_nat_alt)
  then show ?thesis
    by (simp add: get_index_build_handle take_bit_uint_id del: power_numeral)
qed

lemma alloc_pop_lookup:
  assumes size: "table_size T \<le> HMGRHANDLE_INDEX_MAX"
    and t: "t \<noteq> HMGRENTRY_TYPE_FREE"
    and pop: "alloc_pop T obj t mv = Some (T', h)" and h: "h \<noteq> 0"
  shows "hmgrtable_get_object_by_type T' t h = Some (if mv then obj else 0)"
proof -
  from alloc_pop_success [OF pop h] obtain e where
    lt: "free_handle_list_head T < table_size T" and sz: "table_size T' = table_size T"
    and e: "entry_at T' (free_handle_list_head T) = Some e"
    and fields: "object e = obj" "type e = t" "destroyed e = (\<not> mv)"
    and hd: "h = build_handle (free_handle_list_head T) (ucast (unique e)) 0"
    by blast
  from lt size have "free_handle_list_head T \<le> HMGRHANDLE_INDEX_MAX" by simp
  then have gi: "get_index h = free_handle_list_head T"
    unfolding hd by (rule get_index_build_handle_le)
  have gu: "get_unique h = ucast (unique e)"
    unfolding hd by (rule get_unique_build_handle_ucast)
  from lt sz have nle: "\<not> table_size T' \<le> free_handle_list_head T" by simp
  show ?thesis
    using e fields t nle
    by (simp add: hmgrtable_get_object_by_type_def is_handle_valid_def Let_def gi gu)
qed

lemma build_handle_0_1_0: "build_handle 0 1 0 = 0x40000000"
  by (simp add: build_handle_def handle_mask_values handle_params)

lemma alloc_handle_success:
  assumes alloc: "hmgrtable_alloc_handle table obj t mv mem = Some (table', h)" and h: "h \<noteq> 0"
  shows "\<exists>T. alloc_pop T obj t mv = Some (table', h) \<and>
    (if free_count table \<le> HMGRTABLE_MIN_FREE_ENTRIES
     then expand_table table 0 mem = Some (T, True) else T = table)"
  using alloc h
  by (auto simp: alloc_handle_eq split: if_splits Option.bind_splits)

lemma alloc_handle_lookup:
  assumes size: "table_size table \<le> HMGRHANDLE_INDEX_MAX"
    and t: "t \<noteq> HMGRENTRY_TYPE_FREE"
    and alloc: "hmgrtable_alloc_handle table obj t mv mem = Some (table', h)" and h: "h \<noteq> 0"
  shows "hmgrtable_get_object_by_type table' t h = Some (if mv then obj else 0)"
proof -
  from alloc_handle_success [OF alloc h] obtain T where
    pop: "alloc_pop T obj t mv = Some (table', h)"
    and T: "if free_count table \<le> HMGRTABLE_MIN_FREE_ENTRIES
       then expand_table table 0 mem = Some (T, True) else T = table"
    by blast
  have "table_size T \<le> HMGRHANDLE_INDEX_MAX"
  proof (cases "free_count table \<le> HMGRTABLE_MIN_FREE_ENTRIES")
    case True
    with T have "expand_table table 0 mem = Some (T, True)" by simp
    from expand_table_True_sizes [OF this] show ?thesis by simp
  next
    case False
    with T size show ?thesis by simp
  qed
  from alloc_pop_lookup [OF this t pop h] show ?thesis .
qed

subsection \<open>Counting free entries\<close>

lemma count_list_update:
  "i < length xs \<Longrightarrow>
   length (filter P (xs[i := x])) + (if P (xs ! i) then 1 else 0) =
   length (filter P xs) + (if P x then 1 else 0)"
proof (induction xs arbitrary: i)
  case Nil
  then show ?case by simp
next
  case (Cons a xs)
  then show ?case by (cases i) auto
qed

lemma count_list_update_same:
  assumes "i < length xs" and "P x = P (xs ! i)"
  shows "length (filter P (xs[i := x])) = length (filter P xs)"
  using count_list_update [OF assms(1), of P x] assms(2) by simp

lemma count_list_update_remove:
  assumes "i < length xs" and "P (xs ! i)" and "\<not> P x"
  shows "length (filter P (xs[i := x])) = length (filter P xs) - 1"
  using count_list_update [OF assms(1), of P x] assms(2,3) by simp

lemma count_all:
  assumes "\<And>k. k < length xs \<Longrightarrow> P (xs ! k)"
  shows "length (filter P xs) = length xs"
proof -
  from assms have "\<forall>x\<in>set xs. P x" by (auto simp: in_set_conv_nth)
  then show ?thesis by simp
qed

lemma free_count_fresh_entries:
  "length (filter (\<lambda>e. type e = HMGRENTRY_TYPE_FREE) (grown_entries (hmgrtable_init p) n f)) = unat n"
proof -
  have "length (filter (\<lambda>e. type e = HMGRENTRY_TYPE_FREE) (grown_entries (hmgrtable_init p) n f)) =
      length (grown_entries (hmgrtable_init p) n f)"
    by (rule count_all) (simp add: nth_fresh_entries)
  then show ?thesis by simp
qed

lemma assign_second_slot:
  assumes "get_index h = 1"
  shows "hmgrtable_assign_handle (hmgrtable_init p) obj t h (Some f) =
   Some ((fresh_table p 1025 f)
      \<lparr>entry_table := Some ((grown_entries (hmgrtable_init p) 1025 f)
          [2 := set_prev_free_index 0 (grown_entries (hmgrtable_init p) 1025 f ! 2),
           0 := set_next_free_index 2 (grown_entries (hmgrtable_init p) 1025 f ! 0),
           1 := assigned_entry obj t (ucast (get_unique h))]),
       free_count := 1023\<rparr>, STATUS_SUCCESS)"
  apply (simp add: hmgrtable_assign_handle_def Let_def assms expand_table_init)
  apply (simp add: table_consts expand_table_init word_le_nat_alt)
  apply (simp add: entry_at_def nth_fresh_entries entry_update_def assigned_entry_def
      entry_all_updates fresh_table_def table_consts word_le_nat_alt)
  done

lemma build_handle_1_1_0: "get_index (build_handle 1 1 0) = 1" "get_unique (build_handle 1 1 0) = 1"
  by (simp_all add: get_index_build_handle get_unique_build_handle)

subsection \<open>The generation invariant\<close>

lemma assign_handle_eq:
  "hmgrtable_assign_handle table obj t h mem =
     (if get_index h \<ge> HMGRHANDLE_INDEX_MAX then Some (table, STATUS_INVALID_PARAMETER)
      else (if get_index h \<ge> table_size table
            then expand_table table
                   (if get_index h + HMGRTABLE_SIZE_INCREMENT > HMGRHANDLE_INDEX_MAX
                    then HMGRHANDLE_INDEX_MAX else get_index h + HMGRTABLE_SIZE_INCREMENT) mem
            else Some (table, True)) \<bind>
           (\<lambda>(table, expanded). if \<not> expanded then Some (table, STATUS_NO_MEMORY)
              else assign_place table obj t h))"
  unfolding hmgrtable_assign_handle_def assign_place_def Let_def by (rule refl)

lemma generations_inv_nth:
  "generations_inv t \<longleftrightarrow>
     block_ok t \<and> (\<forall>k < length (entries_of t). unique (entries_of t ! k) \<noteq> 0)"
  by (simp add: generations_inv_def list_all_length)

lemma generations_inv_init: "generations_inv (hmgrtable_init p)"
  by (simp add: generations_inv_def block_ok_init)

lemma block_ok_field_update [simp]:
  "block_ok (t\<lparr>free_count := c\<rparr>) = block_ok t"
  "block_ok (t\<lparr>free_handle_list_head := a\<rparr>) = block_ok t"
  "block_ok (t\<lparr>free_handle_list_tail := b\<rparr>) = block_ok t"
  by (simp_all add: block_ok_def split: option.splits)

lemma generations_inv_field_update [simp]:
  "generations_inv (t\<lparr>free_count := c\<rparr>) = generations_inv t"
  "generations_inv (t\<lparr>free_handle_list_head := a\<rparr>) = generations_inv t"
  "generations_inv (t\<lparr>free_handle_list_tail := b\<rparr>) = generations_inv t"
  by (simp_all add: generations_inv_def entries_of_def)

lemma generations_inv_entry_update:
  assumes upd: "entry_update t i f = Some t'" and inv: "generations_inv t"
    and f: "\<And>e. unique e \<noteq> 0 \<Longrightarrow> unique (f e) \<noteq> 0"
  shows "generations_inv t'"
proof -
  from upd obtain es where es: "entry_table t = Some es" "unat i < length es"
    and t': "t' = t\<lparr>entry_table := Some (es[unat i := f (es ! unat i)])\<rparr>"
    by (auto simp: entry_update_Some)
  from inv es have "block_ok t'"
    by (simp add: generations_inv_def block_ok_def t')
  moreover have "unique ((es[unat i := f (es ! unat i)]) ! k) \<noteq> 0" if "k < length es" for k
    using that inv es f by (auto simp: generations_inv_nth nth_list_update)
  ultimately show ?thesis
    by (simp add: generations_inv_nth t')
qed

lemma generations_inv_alloc_pop:
  assumes "alloc_pop T obj t mv = Some (T', h)" and "generations_inv T"
  shows "generations_inv T'"
  using assms
  apply (simp add: alloc_pop_def Let_def split: if_splits Option.bind_splits)
  apply (auto simp: entry_update_def entry_at_def generations_inv_nth block_ok_def
      nth_list_update split: option.splits if_splits)
  done

lemma ucast_get_unique_nonzero:
  assumes "get_unique h \<noteq> 0"
  shows "(ucast (get_unique h) :: 2 word) \<noteq> 0"
proof
  assume z: "(ucast (get_unique h) :: 2 word) = 0"
  have "get_unique h = take_bit 2 (get_unique h)"
    unfolding get_unique_def handle_masks handle_params
    by (rule bit_word_eqI) (auto simp: bit_simps)
  also have "\<dots> = ucast (ucast (get_unique h) :: 2 word)"
    by (rule bit_word_eqI) (auto simp: bit_simps)
  finally show False using z assms by simp
qed

lemma generations_inv_assign_place:
  assumes "assign_place T obj t h = Some (T', s)" and "generations_inv T"
    and "get_unique h \<noteq> 0"
  shows "generations_inv T'"
  using assms(1,2) ucast_get_unique_nonzero [OF assms(3)]
  apply (simp add: assign_place_def Let_def split: if_splits Option.bind_splits)
       apply (clarsimp; ((drule (1) generations_inv_entry_update, simp)+)?; simp)+
  done

lemma generations_inv_free:
  assumes "hmgrtable_free_handle T t h = Some T'" and "generations_inv T"
  shows "generations_inv T'"
  using assms
  apply (simp add: hmgrtable_free_handle_def Let_def table_consts split: if_splits Option.bind_splits)
  apply (auto simp: entry_update_def entry_at_def generations_inv_nth block_ok_def
      nth_list_update split: option.splits if_splits)
  done

lemma generations_inv_mark:
  assumes "hmgrtable_mark_destroyed T h = Some (T', b)" and "generations_inv T"
  shows "generations_inv T'"
  using assms
  by (auto simp: hmgrtable_mark_destroyed_def entry_update_def generations_inv_nth block_ok_def
      nth_list_update split: if_splits Option.bind_splits option.splits)

lemma generations_inv_unmark:
  assumes "hmgrtable_unmark_destroyed T h = Some (T', b)" and "generations_inv T"
  shows "generations_inv T'"
  using assms
  by (auto simp: hmgrtable_unmark_destroyed_def entry_update_def generations_inv_nth block_ok_def
      nth_list_update split: if_splits Option.bind_splits option.splits)

lemma expand_table_True_tail:
  assumes ok: "block_ok t" and ex: "expand_table t n m = Some (t', True)"
  shows "free_count t = 0 \<or> free_handle_list_tail t < table_size t"
  using ex ok
  by (auto simp: expand_table_alt entry_at_def block_ok_def word_less_nat_alt
      split: if_splits option.splits Option.bind_splits)

lemma generations_inv_expand:
  assumes ex: "expand_table T n m = Some (T', b)" and inv: "generations_inv T"
  shows "generations_inv T'"
proof (cases b)
  case False
  with ex have "T' = T" by (simp add: expand_table_False)
  with inv show ?thesis by simp
next
  case True
  from inv have ok: "block_ok T"
    and old: "\<And>k. k < unat (table_size T) \<Longrightarrow> unique (entries_of T ! k) \<noteq> 0"
    by (simp_all add: generations_inv_nth block_ok_length)
  let ?n = "expand_target T n"
  from ex True have ex': "expand_table T n m = Some (T', True)" by simp
  from expand_table_True [OF ok ex'] obtain fresh where
    le: "?n \<le> HMGRHANDLE_INDEX_MAX"
    and size: "table_size T' = ?n"
    and tab: "entry_table T' = Some (grown_entries T ?n fresh)"
    by auto
  from ok have lt: "table_size T < ?n"
    by (intro expand_target_gt) (simp add: block_ok_def)
  have len: "length (grown_entries T ?n fresh) = unat ?n"
    using ok lt by (intro length_grown_entries) simp_all
  have tl: "free_count T = 0 \<or> free_handle_list_tail T < table_size T"
    using ok ex' by (rule expand_table_True_tail)
  have "unique (grown_entries T ?n fresh ! k) \<noteq> 0" if k: "k < unat ?n" for k
  proof (cases "k < unat (table_size T)")
    case True
    with old [OF True] show ?thesis
      by (auto simp: nth_grown_entries_old [OF ok lt True])
  next
    case False
    then have "unat (table_size T) \<le> k" by simp
    from nth_grown_entries_new [OF ok lt this k tl] show ?thesis by simp
  qed
  with le size tab len show ?thesis
    by (simp add: generations_inv_nth block_ok_def)
qed

lemma generations_inv_apply:
  assumes "hmgr_apply op T = Some T'" and "generations_inv T" and "assign_generation_ok op"
  shows "generations_inv T'"
proof (cases op)
  case (Alloc obj t mv mem)
  with assms(1) obtain h where "hmgrtable_alloc_handle T obj t mv mem = Some (T', h)"
    by auto
  then show ?thesis
    using assms(2)
    by (auto simp: alloc_handle_eq split: if_splits Option.bind_splits)
      (blast intro: generations_inv_expand generations_inv_alloc_pop)+
next
  case (Assign obj t h mem)
  with assms(1) obtain s where "hmgrtable_assign_handle T obj t h mem = Some (T', s)"
    by auto
  moreover from Assign assms(3) have "get_unique h \<noteq> 0" by simp
  ultimately show ?thesis
    using assms(2)
    by (auto simp: assign_handle_eq split: if_splits Option.bind_splits)
      (blast intro: generations_inv_expand generations_inv_assign_place)+
next
  case (Free t h)
  with assms(1,2) show ?thesis by (auto intro: generations_inv_free)
next
  case (Grow n mem)
  with assms(1,2) show ?thesis by (auto intro: generations_inv_expand)
next
  case (Mark_destroyed h)
  with assms(1,2) show ?thesis by (auto intro: generations_inv_mark)
next
  case (Unmark_destroyed h)
  with assms(1,2) show ?thesis by (auto intro: generations_inv_unmark)
qed

lemma generations_inv_run:
  assumes "hmgr_run ops T = Some T'" and "generations_inv T"
    and "list_all assign_generation_ok ops"
  shows "generations_inv T'"
  using assms
proof (induction ops arbitrary: T)
  case Nil
  then show ?case by simp
next
  case (Cons op ops)
  from Cons.prems(1) obtain T1 where
    a: "hmgr_apply op T = Some T1" and r: "hmgr_run ops T1 = Some T'"
    by (auto split: option.splits)
  from a Cons.prems(2,3) have "generations_inv T1"
    by (auto intro: generations_inv_apply)
  with r Cons.prems(3) show ?case
    by (auto intro: Cons.IH)
qed

lemma generation_range: "1 \<le> u \<and> u \<le> 3 \<longleftrightarrow> u \<noteq> 0" for u :: "2 word"
proof -
  have "unat u < 4" using unsigned_less [of u, where 'a = nat] by simp
  then have "u \<le> 3" by (simp add: word_le_nat_alt)
  moreover have "1 \<le> u \<longleftrightarrow> u \<noteq> 0"
    by (simp add: word_le_nat_alt unat_eq_zero [symmetric] Suc_le_eq)
  ultimately show ?thesis by simp
qed

lemma entries_of_assigned_table_0:
  "entries_of (assigned_table p obj t g f) ! 0 = assigned_entry obj t g"
  "0 < length (entries_of (assigned_table p obj t g f))"
  by (simp_all add: assigned_table_def entries_of_def)

subsection \<open>Filling a table slot by slot\<close>

lemma object_halves:
  "object e = push_bit 32 (ucast (next_free_index e)) OR ucast (prev_free_index e)"
  unfolding next_free_index_def prev_free_index_def
  by (rule bit_word_eqI) (auto simp: bit_simps)

lemma entry_eqI:
  assumes "prev_free_index e = prev_free_index e'" "next_free_index e = next_free_index e'"
    "type e = type e'" "unique e = unique e'" "instance_field e = instance_field e'"
    "destroyed e = destroyed e'"
  shows "e = e'"
proof -
  from assms(1,2) have "object e = object e'"
    by (simp add: object_halves [of e] object_halves [of e'])
  with assms(3-6) show ?thesis by simp
qed

lemma set_prev_new_free_entry:
  "set_prev_free_index a (new_free_entry p n e) = new_free_entry a n e"
  by (rule entry_eqI) simp_all

lemma hmgr_run_append:
  "hmgr_run (xs @ ys) T = (case hmgr_run xs T of None \<Rightarrow> None | Some T1 \<Rightarrow> hmgr_run ys T1)"
  by (induction xs arbitrary: T) (auto split: option.splits)

lemma unat_of_nat_slot: "k \<le> 16777215 \<Longrightarrow> unat (of_nat k :: uint) = k"
  by (simp add: unat_of_nat)

lemma unat_of_nat_pred:
  assumes "0 < n" "n \<le> 16777215"
  shows "unat (of_nat n - 1 :: uint) = n - 1"
proof -
  from assms(1) have "(of_nat n - 1 :: uint) = of_nat (n - 1)"
    by (simp add: of_nat_diff)
  moreover from assms(2) have "unat (of_nat (n - 1) :: uint) = n - 1"
    by (intro unat_of_nat_slot) simp
  ultimately show ?thesis by (simp only:)
qed

lemma handle_of_slot:
  assumes "k \<le> 16777215"
  shows "get_index (build_handle (of_nat k) 1 0) = of_nat k"
    "get_unique (build_handle (of_nat k) 1 0) = 1"
proof -
  have "(of_nat k :: uint) \<le> HMGRHANDLE_INDEX_MAX"
    using assms by (simp add: word_le_nat_alt unat_of_nat_slot table_consts)
  then show "get_index (build_handle (of_nat k) 1 0) = of_nat k"
    by (rule get_index_build_handle_le)
  show "get_unique (build_handle (of_nat k) 1 0) = 1"
    by (simp add: get_unique_build_handle)
qed

lemma filled_entries_step:
  assumes "Suc k < n"
  shows "(map (filled_entry n k) [0..<n])
      [Suc k := set_prev_free_index HMGRTABLE_INVALID_INDEX (filled_entry n k (Suc k)),
       k := assigned_entry 5 (HMGRENTRY_TYPE_OBJECT 1) 1] =
    map (filled_entry n (Suc k)) [0..<n]"
  using assms
  by (intro nth_equalityI)
    (auto simp: nth_list_update filled_entry_def set_prev_new_free_entry)

lemma filled_entries_last:
  assumes "Suc k = n"
  shows "(map (filled_entry n k) [0..<n])[k := assigned_entry 5 (HMGRENTRY_TYPE_OBJECT 1) 1] =
    map (filled_entry n n) [0..<n]"
  using assms
  by (intro nth_equalityI) (auto simp: nth_list_update filled_entry_def)

lemma filled_table_simps [simp]:
  "table_size (filled_table n k) = of_nat n"
  "free_count (filled_table n k) = 1024 - of_nat k"
  "free_handle_list_tail (filled_table n k) =
     (if k = n then HMGRTABLE_INVALID_INDEX else of_nat n - 1)"
  "free_handle_list_head (filled_table n k) =
     (if k = n then HMGRTABLE_INVALID_INDEX else of_nat k)"
  "entry_table (filled_table n k) = Some (map (filled_entry n k) [0..<n])"
  by (simp_all add: filled_table_def)

lemma entry_at_filled_table:
  assumes "j < n" "n \<le> 16777215"
  shows "entry_at (filled_table n k) (of_nat j) = Some (filled_entry n k j)"
  using assms by (simp add: entry_at_def unat_of_nat_slot)

lemma filled_step_mid:
  assumes "Suc k < n" "n \<le> 16777215"
  shows "assign_place (filled_table n k) 5 (HMGRENTRY_TYPE_OBJECT 1) (build_handle (of_nat k) 1 0) =
    Some (filled_table n (Suc k), STATUS_SUCCESS)"
proof -
  let ?A = "assigned_entry 5 (HMGRENTRY_TYPE_OBJECT 1) 1"
  let ?i = "of_nat k :: uint"
  let ?es = "map (filled_entry n k) [0..<n]"
  have k: "k < n" "k \<le> 16777215" "Suc k \<le> 16777215"
    using assms by simp_all
  have ui: "unat ?i = k" using k by (intro unat_of_nat_slot)
  have ne: "?i \<noteq> of_nat n - 1"
    using assms by (simp add: word_unat_eq_iff unat_of_nat_slot unat_of_nat_pred)
  have suc: "?i + 1 = of_nat (Suc k)" by simp
  have us: "unat (?i + 1) = Suc k"
    unfolding suc using k by (intro unat_of_nat_slot)
  have un: "unat (of_nat n :: uint) = n"
    using assms by (intro unat_of_nat_slot)
  have e: "filled_entry n k k = new_free_entry HMGRTABLE_INVALID_INDEX (?i + 1) zero_entry"
    using assms by (simp add: filled_entry_def)
  have inb: "\<not> (of_nat n :: uint) \<le> ?i + 1"
    using assms by (simp only: word_le_nat_alt us un)
  have gi: "get_index (build_handle ?i 1 0) = ?i" "get_unique (build_handle ?i 1 0) = 1"
    using k by (simp_all only: handle_of_slot)
  define T1 where "T1 = (filled_table n k)\<lparr>entry_table := Some (?es
        [Suc k := set_prev_free_index HMGRTABLE_INVALID_INDEX (filled_entry n k (Suc k))])\<rparr>"
  have at: "entry_at (filled_table n k) ?i = Some (filled_entry n k k)"
    using k assms by (intro entry_at_filled_table)
  have upd: "entry_update (filled_table n k) (?i + 1)
      (set_prev_free_index HMGRTABLE_INVALID_INDEX) = Some T1"
    using assms by (simp add: entry_update_def us T1_def)
  have at1: "entry_at T1 ?i = Some (filled_entry n k k)"
    using k by (simp add: entry_at_def T1_def ui)
  have T1f: "free_handle_list_head T1 = ?i" "table_size T1 = of_nat n"
    "free_count T1 = 1024 - ?i"
    using k by (simp_all add: T1_def)
  have fill: "entry_update (T1\<lparr>free_handle_list_head := ?i + 1\<rparr>) ?i (\<lambda>_. ?A) =
      Some (filled_table n (Suc k)\<lparr>free_count := 1024 - ?i\<rparr>)"
    using k assms(1) filled_entries_step [OF assms(1)]
    by (simp add: entry_update_def T1_def ui filled_table_def)
  have seven: "entry_update T ?i (set_prev_free_index HMGRTABLE_INVALID_INDEX) \<bind>
      (\<lambda>T. entry_update T ?i (set_next_free_index HMGRTABLE_INVALID_INDEX) \<bind>
      (\<lambda>T. entry_update T ?i (\<lambda>e. e\<lparr>object := 5\<rparr>) \<bind>
      (\<lambda>T. entry_update T ?i (\<lambda>e. e\<lparr>type := HMGRENTRY_TYPE_OBJECT 1\<rparr>) \<bind>
      (\<lambda>T. entry_update T ?i (\<lambda>e. e\<lparr>instance_field := 0\<rparr>) \<bind>
      (\<lambda>T. entry_update T ?i (\<lambda>e. e\<lparr>unique := 1\<rparr>) \<bind>
      (\<lambda>T. entry_update T ?i (\<lambda>e. e\<lparr>destroyed := False\<rparr>) \<bind> g)))))) =
      entry_update T ?i (\<lambda>_. ?A) \<bind> g" for T g
    by (auto simp: entry_update_def entry_all_updates assigned_entry_def split: option.splits)
  have kn: "k \<noteq> n" using assms by simp
  have fin: "(filled_table n (Suc k))\<lparr>free_count := 1023 - ?i\<rparr> = filled_table n (Suc k)"
    by (simp add: filled_table_def)
  show ?thesis
    unfolding assign_place_def Let_def gi
    by (simp add: at e ne inb upd at1 T1f seven fill fin kn
        del: of_nat_Suc One_nat_def entry_update_field_update)
qed


lemma filled_step_last:
  assumes "Suc k = n" "n \<le> 16777215"
  shows "assign_place (filled_table n k) 5 (HMGRENTRY_TYPE_OBJECT 1) (build_handle (of_nat k) 1 0) =
    Some (filled_table n n, STATUS_SUCCESS)"
proof -
  let ?A = "assigned_entry 5 (HMGRENTRY_TYPE_OBJECT 1) 1"
  let ?i = "of_nat k :: uint"
  let ?I = HMGRTABLE_INVALID_INDEX
  have k: "k < n" "k \<le> 16777215" "k \<noteq> n"
    using assms by simp_all
  have ui: "unat ?i = k" using k by (intro unat_of_nat_slot)
  have tl: "(of_nat n - 1 :: uint) = ?i"
    using assms(1) [symmetric] by simp
  have e: "filled_entry n k k = new_free_entry ?I ?I zero_entry"
    using assms(1) [symmetric] by (simp add: filled_entry_def)
  have gi: "get_index (build_handle ?i 1 0) = ?i" "get_unique (build_handle ?i 1 0) = 1"
    using k by (simp_all only: handle_of_slot)
  have at: "entry_at (filled_table n k) ?i = Some (filled_entry n k k)"
    using k assms by (intro entry_at_filled_table)
  define T1 where "T1 = (filled_table n k)\<lparr>free_handle_list_tail := ?I\<rparr>"
  have at1: "entry_at T1 ?i = Some (filled_entry n k k)"
    using at by (simp add: entry_at_def T1_def)
  have T1f: "free_handle_list_head T1 = ?i" "free_handle_list_tail (filled_table n k) = ?i"
    using k by (simp_all add: T1_def tl)
  have fill: "entry_update (T1\<lparr>free_handle_list_head := ?I\<rparr>) ?i (\<lambda>_. ?A) =
      Some (filled_table n n\<lparr>free_count := 1024 - ?i\<rparr>)"
    using k filled_entries_last [OF assms(1)]
    by (simp add: entry_update_def T1_def ui filled_table_def)
  have seven: "entry_update T ?i (set_prev_free_index HMGRTABLE_INVALID_INDEX) \<bind>
      (\<lambda>T. entry_update T ?i (set_next_free_index HMGRTABLE_INVALID_INDEX) \<bind>
      (\<lambda>T. entry_update T ?i (\<lambda>e. e\<lparr>object := 5\<rparr>) \<bind>
      (\<lambda>T. entry_update T ?i (\<lambda>e. e\<lparr>type := HMGRENTRY_TYPE_OBJECT 1\<rparr>) \<bind>
      (\<lambda>T. entry_update T ?i (\<lambda>e. e\<lparr>instance_field := 0\<rparr>) \<bind>
      (\<lambda>T. entry_update T ?i (\<lambda>e. e\<lparr>unique := 1\<rparr>) \<bind>
      (\<lambda>T. entry_update T ?i (\<lambda>e. e\<lparr>destroyed := False\<rparr>) \<bind> g)))))) =
      entry_update T ?i (\<lambda>_. ?A) \<bind> g" for T g
    by (auto simp: entry_update_def entry_all_updates assigned_entry_def split: option.splits)
  have fin: "(filled_table n n)\<lparr>free_count := 1023 - ?i\<rparr> = filled_table n n"
    using assms(1) [symmetric] by (simp add: filled_table_def)
  show ?thesis
    unfolding assign_place_def Let_def gi
    by (simp add: at e at1 T1f k(3) tl T1_def [symmetric] seven fill fin
        del: of_nat_Suc One_nat_def entry_update_field_update)
qed

lemma apply_assign_filled:
  assumes "k < n" "n \<le> 16777215"
  shows "hmgr_apply (assign_slot k) (filled_table n k) = Some (filled_table n (Suc k))"
proof -
  have un: "unat (of_nat k :: uint) = k" "unat (of_nat n :: uint) = n"
    using assms by (simp_all add: unat_of_nat_slot)
  have a: "\<not> HMGRHANDLE_INDEX_MAX \<le> (of_nat k :: uint)" "\<not> of_nat n \<le> (of_nat k :: uint)"
    using assms by (simp_all add: table_consts word_le_nat_alt un)
  have gi: "get_index (build_handle (of_nat k) 1 0) = of_nat k"
    using assms by (intro handle_of_slot) simp
  have "assign_place (filled_table n k) 5 (HMGRENTRY_TYPE_OBJECT 1) (build_handle (of_nat k) 1 0) =
      Some (filled_table n (Suc k), STATUS_SUCCESS)"
  proof (cases "Suc k < n")
    case True
    then show ?thesis using assms(2) by (rule filled_step_mid)
  next
    case False
    with assms have n: "Suc k = n" by simp
    from filled_step_last [OF n assms(2)] n show ?thesis by simp
  qed
  then show ?thesis
    using a by (simp add: assign_slot_def assign_handle_eq gi)
qed

lemma run_assign_slots:
  assumes "k \<le> m" "m \<le> n" "n \<le> 16777215"
  shows "hmgr_run (map assign_slot [k..<m]) (filled_table n k) = Some (filled_table n m)"
  using assms
proof (induction m)
  case 0
  then show ?case by simp
next
  case (Suc m)
  show ?case
  proof (cases "k = Suc m")
    case True
    then show ?thesis by simp
  next
    case False
    with Suc.prems have km: "k \<le> m" "m < n" by simp_all
    then have IH: "hmgr_run (map assign_slot [k..<m]) (filled_table n k) = Some (filled_table n m)"
      using Suc.prems by (intro Suc.IH) simp_all
    have "hmgr_apply (assign_slot m) (filled_table n m) = Some (filled_table n (Suc m))"
      using km(2) Suc.prems(3) by (rule apply_assign_filled)
    then show ?thesis
      using km IH by (simp add: hmgr_run_append del: hmgr_apply.simps)
  qed
qed

lemma filled_table_first:
  "assigned_table 0 5 (HMGRENTRY_TYPE_OBJECT 1) 1 zero_block = filled_table 1024 1"
proof -
  let ?G = "grown_entries (hmgrtable_init 0) 1024 zero_block"
  have "?G[1 := set_prev_free_index HMGRTABLE_INVALID_INDEX (?G ! 1),
           0 := assigned_entry 5 (HMGRENTRY_TYPE_OBJECT 1) 1] = map (filled_entry 1024 1) [0..<1024]"
    by (intro nth_equalityI)
      (auto simp: nth_list_update filled_entry_def nth_fresh_entries set_prev_new_free_entry
        zero_block_def)
  then show ?thesis
    by (simp add: assigned_table_def filled_table_def)
qed

lemma run_assign_ops:
  assumes "1 \<le> k" "k \<le> 1024"
  shows "hmgr_run (assign_ops k) (hmgrtable_init 0) = Some (filled_table 1024 k)"
proof -
  have first: "hmgr_apply (assign_slot 0) (hmgrtable_init 0) = Some (filled_table 1024 1)"
    using filled_table_first
    by (simp add: assign_slot_def zeroed_def assign_first_table handle_values)
  have "assign_ops k = assign_slot 0 # map assign_slot [1..<k]"
    using assms(1) by (simp add: assign_ops_def upt_conv_Cons)
  moreover have "hmgr_run (map assign_slot [1..<k]) (filled_table 1024 1) =
      Some (filled_table 1024 k)"
    using assms by (intro run_assign_slots) simp_all
  ultimately show ?thesis
    using first by (simp del: hmgr_apply.simps)
qed

subsection \<open>The run that miscounts the free entries\<close>

lemma set_next_new_free_entry:
  "set_next_free_index a (new_free_entry p n e) = new_free_entry p a e"
  by (rule entry_eqI) simp_all

lemma miscount_first:
  "hmgr_apply (assign_slot 1) (hmgrtable_init 0) =
    Some \<lparr>process = 0, entry_table = Some (map miscount_entry [0..<1025]),
      free_handle_list_head = 0, free_handle_list_tail = 1024, table_size = 1025,
      free_count = 1023\<rparr>"
proof -
  let ?G = "grown_entries (hmgrtable_init 0) 1025 zero_block"
  have "?G[2 := set_prev_free_index 0 (?G ! 2), 0 := set_next_free_index 2 (?G ! 0),
           1 := assigned_entry 5 (HMGRENTRY_TYPE_OBJECT 1) 1] = map miscount_entry [0..<1025]"
    by (intro nth_equalityI)
      (auto simp: nth_list_update miscount_entry_def nth_fresh_entries set_prev_new_free_entry
        set_next_new_free_entry zero_block_def)
  then show ?thesis
    using assign_second_slot [of "build_handle 1 1 0" 0 5 "HMGRENTRY_TYPE_OBJECT 1" zero_block]
    by (simp add: assign_slot_def zeroed_def build_handle_1_1_0 fresh_table_def)
qed

lemma miscount_second:
  "hmgr_apply (assign_slot 0)
     \<lparr>process = 0, entry_table = Some (map miscount_entry [0..<1025]),
      free_handle_list_head = 0, free_handle_list_tail = 1024, table_size = 1025,
      free_count = 1023\<rparr> = Some (filled_table 1025 2)"
proof -
  have "(map miscount_entry [0..<1025])
      [2 := set_prev_free_index HMGRTABLE_INVALID_INDEX (miscount_entry 2),
       0 := assigned_entry 5 (HMGRENTRY_TYPE_OBJECT 1) 1] = map (filled_entry 1025 2) [0..<1025]"
    by (intro nth_equalityI)
      (auto simp: nth_list_update miscount_entry_def filled_entry_def set_prev_new_free_entry
        less_Suc_eq)
  then show ?thesis
    apply (simp add: assign_slot_def assign_handle_eq handle_values table_consts word_le_nat_alt)
    apply (simp add: assign_place_def Let_def handle_values entry_at_def miscount_entry_def
        table_consts word_le_nat_alt)
    apply (simp add: entry_update_def entry_all_updates assigned_entry_def [symmetric]
        filled_table_def miscount_entry_def table_consts)
    done
qed


lemma run_miscount_ops:
  assumes "2 \<le> k" "k \<le> 1025"
  shows "hmgr_run (miscount_ops k) (hmgrtable_init 0) = Some (filled_table 1025 k)"
proof -
  have "hmgr_run (map assign_slot [2..<k]) (filled_table 1025 2) = Some (filled_table 1025 k)"
    using assms by (intro run_assign_slots) simp_all
  then show ?thesis
    using miscount_first miscount_second
    by (simp add: miscount_ops_def del: hmgr_apply.simps)
qed

lemma block_ok_filled_table: "n \<le> 16777215 \<Longrightarrow> block_ok (filled_table n k)"
  by (simp add: block_ok_def table_consts word_le_nat_alt unat_of_nat_slot)

lemma is_handle_valid_filled_table:
  assumes "j < k" "k \<le> n" "n \<le> 16777215"
  shows "is_handle_valid (filled_table n k) (build_handle (of_nat j) 1 0) True
      (HMGRENTRY_TYPE_OBJECT 1) = Some True"
proof -
  have j: "j \<le> 16777215" "j < n" using assms by simp_all
  have "(of_nat j :: uint) < of_nat n"
    using assms by (simp add: word_less_nat_alt unat_of_nat_slot)
  moreover have "entry_at (filled_table n k) (of_nat j) = Some (filled_entry n k j)"
    using j(2) assms(3) by (rule entry_at_filled_table)
  ultimately show ?thesis
    using assms(1) handle_of_slot [OF j(1)]
    by (simp add: is_handle_valid_True filled_entry_def assigned_entry_def)
qed

lemma entry_at_filled_table_invalid:
  "n \<le> 16777215 \<Longrightarrow> entry_at (filled_table n k) HMGRTABLE_INVALID_INDEX = None"
  by (simp add: entry_at_def table_consts)

lemma filled_table_exhausted:
  "free_count (filled_table 1025 1025) = 0xFFFFFFFF"
  "free_handle_list_tail (filled_table 1025 1025) = HMGRTABLE_INVALID_INDEX"
  "free_handle_list_head (filled_table 1025 1025) = HMGRTABLE_INVALID_INDEX"
  "table_size (filled_table 1025 1025) = 1025"
  "free_entries (filled_table 1025 1025) = 0"
  by (simp_all add: free_entries_def filled_entry_def assigned_entry_def)

lemma expand_table_exhausted: "expand_table (filled_table 1025 1025) n mem = None"
  by (simp add: expand_table_alt entry_at_filled_table_invalid)

lemma assign_exhausted:
  "hmgrtable_assign_handle (filled_table 1025 1025) obj t (build_handle 1025 1 0) mem = None"
proof -
  have "get_index (build_handle 1025 1 0) = 1025"
    using handle_of_slot(1) [of 1025] by simp
  then show ?thesis
    by (simp add: assign_handle_eq expand_table_exhausted table_consts word_le_nat_alt)
qed

lemma free_exhausted:
  "hmgrtable_free_handle (filled_table 1025 1025) (HMGRENTRY_TYPE_OBJECT 1) (build_handle 0 1 0) = None"
proof -
  have "is_handle_valid (filled_table 1025 1025) (build_handle (of_nat 0) 1 0) True
      (HMGRENTRY_TYPE_OBJECT 1) = Some True"
    by (rule is_handle_valid_filled_table) simp_all
  then have v: "is_handle_valid (filled_table 1025 1025) (build_handle 0 1 0) True
      (HMGRENTRY_TYPE_OBJECT 1) = Some True" by simp
  show ?thesis
    unfolding free_handle_faults_iff [OF v]
    by (simp add: entry_at_filled_table_invalid)
qed

lemma free_last_slot_free:
  "hmgrtable_free_handle (filled_table 1025 1024) (HMGRENTRY_TYPE_OBJECT 1) (build_handle 0 1 0) \<noteq> None"
proof -
  have "is_handle_valid (filled_table 1025 1024) (build_handle (of_nat 0) 1 0) True
      (HMGRENTRY_TYPE_OBJECT 1) = Some True"
    by (rule is_handle_valid_filled_table) simp_all
  then have v: "is_handle_valid (filled_table 1025 1024) (build_handle 0 1 0) True
      (HMGRENTRY_TYPE_OBJECT 1) = Some True" by simp
  show ?thesis
    unfolding free_handle_faults_iff [OF v]
    by (simp add: entry_at_def)
qed

subsection \<open>Allocation from a table at the low-water mark\<close>

lemma expand_table_filled:
  "expand_table (filled_table 1024 1000) 0 zeroed =
    Some (\<lparr>process = 0,
      entry_table = Some (grown_entries (filled_table 1024 1000) 2048 zero_block),
      free_handle_list_head = 1000, free_handle_list_tail = 2047, table_size = 2048,
      free_count = 1048\<rparr>, True)"
proof -
  let ?T = "filled_table 1024 1000"
  have ok: "block_ok ?T" by (rule block_ok_filled_table) simp
  have tg: "expand_target ?T 0 = 2048"
    by (simp add: expand_target_def table_consts)
  have tl: "free_count ?T = 0 \<or>
       (free_handle_list_tail ?T < table_size ?T \<and>
        next_free_index (entries_of ?T ! unat (free_handle_list_tail ?T)) = HMGRTABLE_INVALID_INDEX)"
    by (simp add: filled_entry_def)
  have le: "expand_target ?T 0 \<le> HMGRHANDLE_INDEX_MAX"
    by (simp add: tg table_consts)
  show ?thesis
    unfolding zeroed_def expand_table_eq [OF ok tl le] tg
    by (simp add: filled_table_def table_consts)
qed

lemma alloc_pop_grown_filled:
  "alloc_pop \<lparr>process = 0,
      entry_table = Some (grown_entries (filled_table 1024 1000) 2048 zero_block),
      free_handle_list_head = 1000, free_handle_list_tail = 2047, table_size = 2048,
      free_count = 1048\<rparr> 7 (HMGRENTRY_TYPE_OBJECT 1) True =
    Some (\<lparr>process = 0,
      entry_table = Some ((grown_entries (filled_table 1024 1000) 2048 zero_block)
        [1001 := set_prev_free_index HMGRTABLE_INVALID_INDEX
                   (grown_entries (filled_table 1024 1000) 2048 zero_block ! 1001),
         1000 := \<lparr>object = 7, type = HMGRENTRY_TYPE_OBJECT 1, unique = 1, instance_field = 0,
                   destroyed = False\<rparr>]),
      free_handle_list_head = 1001, free_handle_list_tail = 2047, table_size = 2048,
      free_count = 1047\<rparr>, build_handle 1000 1 0)"
proof -
  let ?T = "filled_table 1024 1000"
  let ?G = "grown_entries ?T 2048 zero_block"
  have ok: "block_ok ?T" by (rule block_ok_filled_table) simp
  have lt: "table_size ?T < 2048" by simp
  have len: "length ?G = 2048"
    using length_grown_entries [OF ok, of 2048 zero_block] by simp
  have "?G ! 1000 = (if free_count ?T \<noteq> 0 \<and> 1000 = unat (free_handle_list_tail ?T)
     then set_next_free_index (table_size ?T) (entries_of ?T ! 1000) else entries_of ?T ! 1000)"
    by (rule nth_grown_entries_old [OF ok lt]) simp
  then have e: "?G ! 1000 = new_free_entry HMGRTABLE_INVALID_INDEX 1001 zero_entry"
    by (simp add: filled_entry_def)
  show ?thesis
    apply (simp add: alloc_pop_def Let_def entry_at_def len e)
    apply (simp add: entry_update_def len e entry_four_updates word_le_nat_alt)
    done
qed

section \<open>Properties of the handle manager\<close>

text \<open>
  C1. For every table and every handle that passes validation, free advances the slot's
  generation by 1, wrapping from 3 to 1. The code does not: \<open>hmgrtable_free_handle\<close>
  first stores 1 in \<open>unique\<close> and then increments it, so the generation of a freed
  slot is 2 whatever it was.
\<close>

theorem free_handle_generation_is_two:
  assumes "is_handle_valid table h True t = Some True"
    and "hmgrtable_free_handle table t h = Some table'"
  shows "slot_generation (Some table') (get_index h) = Some 2"
  using free_handle_generation [OF assms] by (simp add: slot_generation_def)

theorem free_handle_generation_is_two_witness:
  "slot_generation (hmgr_run [Assign 5 (HMGRENTRY_TYPE_OBJECT 1) (build_handle 0 2 0) zeroed]
      (hmgrtable_init 0)) 0 = Some 2 \<and>
   slot_generation (hmgr_run [Assign 5 (HMGRENTRY_TYPE_OBJECT 1) (build_handle 0 2 0) zeroed,
      Free (HMGRENTRY_TYPE_OBJECT 1) (build_handle 0 2 0)] (hmgrtable_init 0)) 0 = Some 2 \<and>
   slot_generation (hmgr_run [Assign 5 (HMGRENTRY_TYPE_OBJECT 1) (build_handle 0 3 0) zeroed]
      (hmgrtable_init 0)) 0 = Some 3 \<and>
   slot_generation (hmgr_run [Assign 5 (HMGRENTRY_TYPE_OBJECT 1) (build_handle 0 3 0) zeroed,
      Free (HMGRENTRY_TYPE_OBJECT 1) (build_handle 0 3 0)] (hmgrtable_init 0)) 0 = Some 2"
proof -
  let ?T = "HMGRENTRY_TYPE_OBJECT 1"
  let ?f = "zero_block"
  have freed: "slot_generation (hmgr_run [Assign 5 ?T (build_handle 0 g 0) zeroed,
      Free ?T (build_handle 0 g 0)] (hmgrtable_init 0)) 0 = Some 2"
    if g: "get_unique (build_handle 0 g 0) = ucast (u :: 2 word)"
      and g': "ucast (get_unique (build_handle 0 g 0)) = u" for g u
  proof -
    let ?h = "build_handle 0 g 0"
    let ?S = "assigned_table 0 5 ?T u ?f"
    have run1: "hmgrtable_assign_handle (hmgrtable_init 0) 5 ?T ?h zeroed = Some (?S, STATUS_SUCCESS)"
      by (simp add: zeroed_def assign_first_table handle_values g')
    have valid: "is_handle_valid ?S ?h True ?T = Some True"
      by (simp add: is_handle_valid_assigned_table handle_values g)
    have "entry_at ?S (free_handle_list_tail ?S) \<noteq> None"
      unfolding entry_at_block_ok [OF block_ok_assigned_table] by simp
    then obtain S' where free: "hmgrtable_free_handle ?S ?T ?h = Some S'"
      using free_handle_faults_iff [OF valid] by auto
    from free_handle_generation_is_two [OF valid free] run1 free
    show ?thesis by (simp add: handle_values)
  qed
  have assigned: "slot_generation (hmgr_run [Assign 5 ?T (build_handle 0 g 0) zeroed]
      (hmgrtable_init 0)) 0 = Some (ucast (get_unique (build_handle 0 g 0)))" for g
    by (simp add: zeroed_def assign_first_table handle_values slot_generation_def
        entry_at_assigned_table_0)
  have "get_unique (build_handle 0 2 0) = ucast (2 :: 2 word)"
       "get_unique (build_handle 0 3 0) = ucast (3 :: 2 word)"
       "ucast (get_unique (build_handle 0 2 0)) = (2 :: 2 word)"
       "ucast (get_unique (build_handle 0 3 0)) = (3 :: 2 word)"
    by (simp_all add: handle_values)
  then show ?thesis
    using freed [of 2 2] freed [of 3 3] assigned [of 2] assigned [of 3]
    by simp
qed

text \<open>
  C2. For every object pointer \<open>o\<close> and every non-free type \<open>t\<close>, allocating \<open>o\<close> with
  type \<open>t\<close> and then looking up the returned handle with expected type \<open>t\<close> returns
  \<open>o\<close>, when the allocation succeeds. As stated this fails: allocated with
  \<open>make_valid = false\<close>, the slot is created destroyed and the lookup returns NULL.
\<close>

theorem alloc_not_valid_lookup_null:
  "hmgrtable_alloc_handle (hmgrtable_init 0) 5 (HMGRENTRY_TYPE_OBJECT 1) False zeroed =
     Some (allocated_table 0 5 (HMGRENTRY_TYPE_OBJECT 1) False zero_block, build_handle 0 1 0) \<and>
   build_handle 0 1 0 \<noteq> 0 \<and>
   hmgrtable_get_object_by_type (allocated_table 0 5 (HMGRENTRY_TYPE_OBJECT 1) False zero_block)
     (HMGRENTRY_TYPE_OBJECT 1) (build_handle 0 1 0) = Some 0 \<and>
   hmgrtable_get_object_by_type (allocated_table 0 5 (HMGRENTRY_TYPE_OBJECT 1) False zero_block)
     (HMGRENTRY_TYPE_OBJECT 1) (build_handle 0 1 0) \<noteq> Some 5"
proof -
  let ?T = "HMGRENTRY_TYPE_OBJECT 1"
  have a: "hmgrtable_alloc_handle (hmgrtable_init 0) 5 ?T False zeroed =
     Some (allocated_table 0 5 ?T False zero_block, build_handle 0 1 0)"
    unfolding zeroed_def by (rule alloc_first)
  have b: "build_handle 0 1 0 \<noteq> 0" by (simp add: build_handle_0_1_0)
  have "table_size (hmgrtable_init 0) \<le> HMGRHANDLE_INDEX_MAX" by simp
  from alloc_handle_lookup [OF this _ a b]
  have c: "hmgrtable_get_object_by_type (allocated_table 0 5 ?T False zero_block) ?T
      (build_handle 0 1 0) = Some 0"
    by simp
  then have d: "hmgrtable_get_object_by_type (allocated_table 0 5 ?T False zero_block) ?T
      (build_handle 0 1 0) \<noteq> Some 5"
    by simp
  from a b c d show ?thesis by (intro conjI)
qed

text \<open>
  C2 as amended: for every object pointer and every non-free type, if
  \<open>hmgrtable_alloc_handle\<close> with \<open>make_valid = true\<close> returns a handle other than 0 (on a
  table within the index ceiling), then \<open>hmgrtable_get_object_by_type\<close> with that type
  and handle returns the object.
\<close>

theorem alloc_valid_then_lookup:
  assumes "table_size table \<le> HMGRHANDLE_INDEX_MAX"
    and "t \<noteq> HMGRENTRY_TYPE_FREE"
    and "hmgrtable_alloc_handle table obj t True mem = Some (table', h)"
    and "h \<noteq> 0"
  shows "hmgrtable_get_object_by_type table' t h = Some obj"
  using alloc_handle_lookup [OF assms] by simp

theorem alloc_valid_then_lookup_witness:
  "table_size (hmgrtable_init 0) \<le> HMGRHANDLE_INDEX_MAX \<and>
   hmgrtable_alloc_handle (hmgrtable_init 0) 5 (HMGRENTRY_TYPE_OBJECT 1) True zeroed =
     Some (allocated_table 0 5 (HMGRENTRY_TYPE_OBJECT 1) True zero_block, build_handle 0 1 0) \<and>
   build_handle 0 1 0 \<noteq> 0 \<and>
   hmgrtable_get_object_by_type (allocated_table 0 5 (HMGRENTRY_TYPE_OBJECT 1) True zero_block)
     (HMGRENTRY_TYPE_OBJECT 1) (build_handle 0 1 0) = Some 5"
proof -
  let ?T = "HMGRENTRY_TYPE_OBJECT 1"
  have s: "table_size (hmgrtable_init 0) \<le> HMGRHANDLE_INDEX_MAX" by simp
  have t: "?T \<noteq> HMGRENTRY_TYPE_FREE" by simp
  have a: "hmgrtable_alloc_handle (hmgrtable_init 0) 5 ?T True zeroed =
     Some (allocated_table 0 5 ?T True zero_block, build_handle 0 1 0)"
    unfolding zeroed_def by (rule alloc_first)
  have b: "build_handle 0 1 0 \<noteq> 0" by (simp add: build_handle_0_1_0)
  from alloc_valid_then_lookup [OF s t a b] s a b show ?thesis by (intro conjI)
qed

text \<open>
  C3. For all field values within their widths (index below \<open>2^24\<close>, generation below
  \<open>2^2\<close>, instance below \<open>2^6\<close>), decoding the handle built from them returns the
  same triple.
\<close>

theorem handle_roundtrip:
  assumes "index < 2 ^ HMGRHANDLE_INDEX_BITS"
    and "uniq < 2 ^ HMGRHANDLE_UNIQUE_BITS"
    and "inst < 2 ^ HMGRHANDLE_INSTANCE_BITS"
  shows "get_index (build_handle index uniq inst) = index \<and>
         get_unique (build_handle index uniq inst) = uniq \<and>
         get_instance (build_handle index uniq inst) = inst"
  using assms
  by (simp add: get_index_build_handle get_unique_build_handle get_instance_build_handle
      take_bit_uint_id handle_params)

theorem handle_roundtrip_witness:
  "(5 :: uint) < 2 ^ HMGRHANDLE_INDEX_BITS \<and> (2 :: uint) < 2 ^ HMGRHANDLE_UNIQUE_BITS \<and>
   (3 :: uint) < 2 ^ HMGRHANDLE_INSTANCE_BITS \<and>
   get_index (build_handle 5 2 3) = 5 \<and> get_unique (build_handle 5 2 3) = 2 \<and>
   get_instance (build_handle 5 2 3) = 3"
proof -
  have a: "(5 :: uint) < 2 ^ HMGRHANDLE_INDEX_BITS" by (simp add: handle_params)
  have b: "(2 :: uint) < 2 ^ HMGRHANDLE_UNIQUE_BITS" by (simp add: handle_params)
  have c: "(3 :: uint) < 2 ^ HMGRHANDLE_INSTANCE_BITS" by (simp add: handle_params)
  from handle_roundtrip [OF a b c] a b c show ?thesis by simp
qed

text \<open>
  C4. After every operation \<open>free_count\<close> equals the number of entries of type Free.
  The code breaks this when \<open>hmgrtable_assign_handle\<close> grows the table to reach an index
  beyond \<open>table_size\<close>: \<open>expand_table\<close> adds \<open>new_table_size - table_size\<close> Free entries
  and adds \<open>table_size_increment\<close> to \<open>free_count\<close>. Assigning slot 1 of a new table
  leaves 1025 entries, 1024 of them Free, and \<open>free_count = 1023\<close>.
\<close>

theorem assign_beyond_size_free_count:
  "map_option table_size
     (hmgr_run [Assign 5 (HMGRENTRY_TYPE_OBJECT 1) (build_handle 1 1 0) zeroed] (hmgrtable_init 0)) =
     Some 1025 \<and>
   map_option free_count
     (hmgr_run [Assign 5 (HMGRENTRY_TYPE_OBJECT 1) (build_handle 1 1 0) zeroed] (hmgrtable_init 0)) =
     Some 1023 \<and>
   map_option free_entries
     (hmgr_run [Assign 5 (HMGRENTRY_TYPE_OBJECT 1) (build_handle 1 1 0) zeroed] (hmgrtable_init 0)) =
     Some 1024"
proof -
  let ?T = "HMGRENTRY_TYPE_OBJECT 1"
  let ?free = "\<lambda>e. type e = HMGRENTRY_TYPE_FREE"
  let ?G = "grown_entries (hmgrtable_init 0) 1025 zero_block"
  let ?Ga = "?G[2 := set_prev_free_index 0 (?G ! 2)]"
  let ?Gb = "?Ga[0 := set_next_free_index 2 (?G ! 0)]"
  let ?Gc = "?Gb[1 := assigned_entry 5 ?T 1]"
  let ?S = "(fresh_table 0 1025 zero_block)\<lparr>entry_table := Some ?Gc, free_count := 1023\<rparr>"
  have run: "hmgr_run [Assign 5 ?T (build_handle 1 1 0) zeroed] (hmgrtable_init 0) = Some ?S"
    by (simp add: zeroed_def assign_second_slot build_handle_1_1_0)
  have cG: "length (filter ?free ?G) = 1025"
    by (simp add: free_count_fresh_entries)
  have "length (filter ?free ?Ga) = length (filter ?free ?G)"
    by (rule count_list_update_same) (simp_all add: nth_fresh_entries)
  then have cG2: "length (filter ?free ?Ga) = 1025"
    by (simp only: cG)
  have "length (filter ?free ?Gb) = length (filter ?free ?Ga)"
    by (rule count_list_update_same) (simp_all add: nth_fresh_entries)
  then have cG0: "length (filter ?free ?Gb) = 1025"
    by (simp only: cG2)
  have "length (filter ?free ?Gc) = length (filter ?free ?Gb) - 1"
    by (rule count_list_update_remove) (simp_all add: nth_fresh_entries)
  then have "length (filter ?free ?Gc) = 1025 - 1"
    by (simp only: cG0)
  then have cG1: "length (filter ?free ?Gc) = 1024"
    by simp
  then have "free_entries ?S = 1024"
    by (simp add: free_entries_def)
  then show ?thesis
    unfolding run by simp
qed

text \<open>
  C5. In every reachable table state the generation stored in every slot lies in 1..3;
  no operation stores generation 0 into a slot. As stated this fails:
  \<open>hmgrtable_assign_handle\<close> stores the generation field of the handle it is given, and
  that field can be 0.
\<close>

theorem assign_stores_generation_zero:
  "hmgr_run [Assign 5 (HMGRENTRY_TYPE_OBJECT 1) (build_handle 0 0 1) zeroed] (hmgrtable_init 0) =
     Some (assigned_table 0 5 (HMGRENTRY_TYPE_OBJECT 1) 0 zero_block) \<and>
   slot_generation (Some (assigned_table 0 5 (HMGRENTRY_TYPE_OBJECT 1) 0 zero_block)) 0 = Some 0 \<and>
   \<not> generations_in_range (assigned_table 0 5 (HMGRENTRY_TYPE_OBJECT 1) 0 zero_block)"
proof -
  let ?T = "HMGRENTRY_TYPE_OBJECT 1"
  let ?S = "assigned_table 0 5 ?T 0 zero_block"
  have h: "get_index (build_handle 0 0 1) = 0" "get_unique (build_handle 0 0 1) = 0"
    by (simp_all add: get_index_build_handle get_unique_build_handle)
  have a: "hmgr_run [Assign 5 ?T (build_handle 0 0 1) zeroed] (hmgrtable_init 0) = Some ?S"
    by (simp add: zeroed_def assign_first_table h)
  have b: "slot_generation (Some ?S) 0 = Some 0"
    by (simp add: slot_generation_def entry_at_assigned_table_0)
  have "\<not> (1 \<le> unique (entries_of ?S ! 0) \<and> unique (entries_of ?S ! 0) \<le> 3)"
    by (simp add: entries_of_assigned_table_0)
  then have c: "\<not> generations_in_range ?S"
    using entries_of_assigned_table_0(2) [of 0 5 ?T 0 zero_block]
    unfolding generations_in_range_def list_all_length by blast
  from a b c show ?thesis by (intro conjI)
qed

text \<open>
  C5 as amended: in every table state reached from \<open>hmgrtable_init\<close> by allocate,
  assign, free, grow, mark-destroyed and unmark-destroyed, where every handle given to
  assign has a generation field other than 0, the generation stored in every slot lies
  in 1..3. Assign stores the generation of its handle; the other operations never store 0.
\<close>

theorem generations_stay_in_range:
  assumes "hmgr_run ops (hmgrtable_init proc) = Some table"
    and "list_all assign_generation_ok ops"
  shows "generations_in_range table"
proof -
  from generations_inv_run [OF assms(1) generations_inv_init assms(2)]
  have "list_all (\<lambda>e. unique e \<noteq> 0) (entries_of table)"
    by (simp add: generations_inv_def)
  then show ?thesis
    by (simp add: generations_in_range_def generation_range)
qed

theorem generations_stay_in_range_witness:
  "hmgr_run [Assign 5 (HMGRENTRY_TYPE_OBJECT 1) (build_handle 0 1 0) zeroed] (hmgrtable_init 0) =
     Some (assigned_table 0 5 (HMGRENTRY_TYPE_OBJECT 1) 1 zero_block) \<and>
   list_all assign_generation_ok
     [Assign 5 (HMGRENTRY_TYPE_OBJECT 1) (build_handle 0 1 0) zeroed] \<and>
   generations_in_range (assigned_table 0 5 (HMGRENTRY_TYPE_OBJECT 1) 1 zero_block)"
proof -
  let ?T = "HMGRENTRY_TYPE_OBJECT 1"
  let ?ops = "[Assign 5 ?T (build_handle 0 1 0) zeroed]"
  have a: "hmgr_run ?ops (hmgrtable_init 0) = Some (assigned_table 0 5 ?T 1 zero_block)"
    by (simp add: zeroed_def assign_first_table handle_values)
  have b: "list_all assign_generation_ok ?ops"
    by (simp add: handle_values)
  from generations_stay_in_range [OF a b] a b show ?thesis by (intro conjI)
qed

text \<open>
  C6. For every handle that fails validation (with the destroyed flag ignored),
  \<open>hmgrtable_free_handle\<close> leaves the whole table as it was.
\<close>

theorem free_invalid_handle_unchanged:
  assumes "is_handle_valid table h True t = Some False"
  shows "hmgrtable_free_handle table t h = Some table"
  using assms by (simp add: hmgrtable_free_handle_def)

text \<open>
  An instance: in a table whose slot 0 holds generation 1, freeing a handle of slot 0
  with generation 2.
\<close>

theorem free_invalid_handle_unchanged_witness:
  "is_handle_valid (assigned_table 0 5 (HMGRENTRY_TYPE_OBJECT 1) 1 zero_block)
     (build_handle 0 2 0) True (HMGRENTRY_TYPE_OBJECT 1) = Some False \<and>
   hmgrtable_free_handle (assigned_table 0 5 (HMGRENTRY_TYPE_OBJECT 1) 1 zero_block)
     (HMGRENTRY_TYPE_OBJECT 1) (build_handle 0 2 0) =
   Some (assigned_table 0 5 (HMGRENTRY_TYPE_OBJECT 1) 1 zero_block)"
proof -
  have a: "is_handle_valid (assigned_table 0 5 (HMGRENTRY_TYPE_OBJECT 1) 1 zero_block)
     (build_handle 0 2 0) True (HMGRENTRY_TYPE_OBJECT 1) = Some False"
    by (simp add: is_handle_valid_assigned_table handle_values)
  from free_invalid_handle_unchanged [OF a] a show ?thesis by simp
qed

text \<open>
  C7. For every handle whose index refers to a slot of the table that is not Free,
  \<open>hmgrtable_assign_handle\<close> returns \<open>STATUS_INVALID_PARAMETER\<close> and the table is
  unchanged.
\<close>

theorem assign_busy_slot:
  assumes "get_index h < table_size table"
    and "entry_at table (get_index h) = Some e"
    and "type e \<noteq> HMGRENTRY_TYPE_FREE"
  shows "hmgrtable_assign_handle table obj t h mem = Some (table, STATUS_INVALID_PARAMETER)"
  using assms by (rule assign_busy)

text \<open>An instance: assigning twice at the same handle, starting from a new table.\<close>

theorem assign_busy_slot_witness:
  "hmgrtable_assign_handle (hmgrtable_init 0) 5 (HMGRENTRY_TYPE_OBJECT 1) (build_handle 0 1 0) zeroed =
     Some (assigned_table 0 5 (HMGRENTRY_TYPE_OBJECT 1) 1 zero_block, STATUS_SUCCESS) \<and>
   hmgrtable_assign_handle (assigned_table 0 5 (HMGRENTRY_TYPE_OBJECT 1) 1 zero_block)
     7 (HMGRENTRY_TYPE_OBJECT 1) (build_handle 0 1 0) zeroed =
     Some (assigned_table 0 5 (HMGRENTRY_TYPE_OBJECT 1) 1 zero_block,
           STATUS_INVALID_PARAMETER)"
proof -
  let ?S = "assigned_table 0 5 (HMGRENTRY_TYPE_OBJECT 1) 1 zero_block"
  let ?h = "build_handle 0 1 0"
  have a: "get_index ?h < table_size ?S" by (simp add: handle_values)
  have b: "entry_at ?S (get_index ?h) = Some (assigned_entry 5 (HMGRENTRY_TYPE_OBJECT 1) 1)"
    by (simp add: handle_values entry_at_assigned_table_0)
  have c: "type (assigned_entry 5 (HMGRENTRY_TYPE_OBJECT 1) 1) \<noteq> HMGRENTRY_TYPE_FREE"
    by simp
  have d: "hmgrtable_assign_handle (hmgrtable_init 0) 5 (HMGRENTRY_TYPE_OBJECT 1) ?h zeroed =
      Some (?S, STATUS_SUCCESS)"
    by (simp add: zeroed_def assign_first_table handle_values)
  from assign_busy_slot [OF a b c, of 7 "HMGRENTRY_TYPE_OBJECT 1" zeroed] d
  show ?thesis
    by (intro conjI)
qed

text \<open>
  C8. Growth is all-or-nothing: when the target size exceeds the index ceiling or the
  allocation of the new block fails, \<open>expand_table\<close> returns false and leaves the table
  as it was. Both failure returns do come before the first write (lemma
  \<open>expand_table_fails\<close>), but the check of the free-list tail comes before them, and it
  reads \<open>entry_table[free_handle_list_tail]\<close> whenever \<open>free_count\<close> is not 0. The
  1025 assignments of \<open>miscount_ops 1025\<close> occupy every slot of a table of 1025 entries:
  the free list is empty, its tail is the INVALID index, and \<open>free_count\<close>, which
  \<open>expand_table\<close> set one short of the entries it added, has gone from 0 to
  \<open>0xFFFFFFFF\<close>. On that table \<open>expand_table\<close> reads entry \<open>0xFF000000\<close> of a
  block of 1025 entries before it reaches either failure return, whatever the target size
  and whether or not the allocation would fail (the model returns \<open>None\<close>), and so does
  an \<open>hmgrtable_assign_handle\<close> at index 1025 with a failing allocator, the next
  operation that grows the table.
\<close>

theorem expand_table_reads_beyond_block:
  "hmgr_run (miscount_ops 1025) (hmgrtable_init 0) = Some (filled_table 1025 1025) \<and>
   table_size (filled_table 1025 1025) = 1025 \<and>
   free_entries (filled_table 1025 1025) = 0 \<and>
   free_count (filled_table 1025 1025) = 0xFFFFFFFF \<and>
   free_handle_list_tail (filled_table 1025 1025) = HMGRTABLE_INVALID_INDEX \<and>
   entry_at (filled_table 1025 1025) HMGRTABLE_INVALID_INDEX = None \<and>
   expand_table (filled_table 1025 1025) NumEntries mem = None \<and>
   hmgrtable_assign_handle (filled_table 1025 1025) 5 (HMGRENTRY_TYPE_OBJECT 1)
     (build_handle 1025 1 0) None = None \<and>
   hmgr_run (miscount_ops 1025 @
       [Assign 5 (HMGRENTRY_TYPE_OBJECT 1) (build_handle 1025 1 0) None])
     (hmgrtable_init 0) = None"
proof -
  have run: "hmgr_run (miscount_ops 1025) (hmgrtable_init 0) = Some (filled_table 1025 1025)"
    by (rule run_miscount_ops) simp_all
  have assign: "hmgrtable_assign_handle (filled_table 1025 1025) 5 (HMGRENTRY_TYPE_OBJECT 1)
      (build_handle 1025 1 0) None = None"
    by (rule assign_exhausted)
  have "hmgr_run (miscount_ops 1025 @
       [Assign 5 (HMGRENTRY_TYPE_OBJECT 1) (build_handle 1025 1 0) None])
     (hmgrtable_init 0) = None"
    using assign by (simp add: hmgr_run_append run)
  moreover have "entry_at (filled_table 1025 1025) HMGRTABLE_INVALID_INDEX = None"
    by (rule entry_at_filled_table_invalid) simp
  ultimately show ?thesis
    using run assign filled_table_exhausted expand_table_exhausted
    by (intro conjI)
qed

text \<open>
  C9. Whenever \<open>hmgrtable_alloc_handle\<close> is called with \<open>free_count\<close> at or below the
  low-water mark (128), it grows the table before it pops a slot. When \<open>expand_table\<close>
  succeeds, the result of the call is that of popping the head of the free list of the
  grown table, which has 1024 entries more and a \<open>free_count\<close> 1024 higher; when
  \<open>expand_table\<close> returns false, the call returns the handle 0 and the table as it was;
  when \<open>expand_table\<close> reads outside the block, so does the call. So when the call
  returns a handle other than 0, \<open>expand_table\<close> has succeeded, \<open>free_count\<close>
  afterwards exceeds the mark and \<open>table_size\<close> has strictly increased.
\<close>

theorem alloc_grows_at_low_water_mark:
  assumes "free_count table \<le> HMGRTABLE_MIN_FREE_ENTRIES"
    and "table_size table \<le> HMGRHANDLE_INDEX_MAX"
  shows "(\<forall>grown. expand_table table 0 mem = Some (grown, True) \<longrightarrow>
            hmgrtable_alloc_handle table obj t mv mem = alloc_pop grown obj t mv \<and>
            table_size grown = table_size table + table_size_increment \<and>
            table_size table < table_size grown \<and>
            free_count grown = free_count table + table_size_increment \<and>
            HMGRTABLE_MIN_FREE_ENTRIES < free_count grown - 1) \<and>
         (\<forall>t1. expand_table table 0 mem = Some (t1, False) \<longrightarrow>
            hmgrtable_alloc_handle table obj t mv mem = Some (table, 0)) \<and>
         (expand_table table 0 mem = None \<longrightarrow>
            hmgrtable_alloc_handle table obj t mv mem = None) \<and>
         (\<forall>table' h. hmgrtable_alloc_handle table obj t mv mem = Some (table', h) \<longrightarrow> h \<noteq> 0 \<longrightarrow>
            (\<exists>grown. expand_table table 0 mem = Some (grown, True) \<and>
               alloc_pop grown obj t mv = Some (table', h)) \<and>
            HMGRTABLE_MIN_FREE_ENTRIES < free_count table' \<and>
            table_size table < table_size table')"
proof -
  from assms(1) have "unat (free_count table) \<le> 128"
    by (simp add: word_le_nat_alt table_consts)
  then have "unat (1023 + free_count table) = 1023 + unat (free_count table)"
    by (simp add: unat_add_lem [THEN iffD1])
  then have above: "HMGRTABLE_MIN_FREE_ENTRIES < 1023 + free_count table"
    by (simp add: table_consts word_less_nat_alt)
  have tg: "expand_target table 0 = table_size table + table_size_increment"
    by (simp add: expand_target_def)
  have gt: "table_size table < table_size table + table_size_increment"
    using expand_target_gt [OF assms(2), of 0] by (simp only: tg)
  have grown: "hmgrtable_alloc_handle table obj t mv mem = alloc_pop T obj t mv \<and>
      table_size T = table_size table + table_size_increment \<and>
      table_size table < table_size T \<and>
      free_count T = free_count table + table_size_increment \<and>
      HMGRTABLE_MIN_FREE_ENTRIES < free_count T - 1"
    if T: "expand_table table 0 mem = Some (T, True)" for T
  proof -
    from expand_table_True_sizes [OF T] have
      sT: "table_size T = table_size table + table_size_increment"
      and fT: "free_count T = free_count table + table_size_increment"
      by (simp_all add: tg)
    have "hmgrtable_alloc_handle table obj t mv mem = alloc_pop T obj t mv"
      using assms(1) T by (simp add: alloc_handle_eq)
    moreover have "free_count T - 1 = 1023 + free_count table"
      by (simp add: fT table_consts)
    then have "HMGRTABLE_MIN_FREE_ENTRIES < free_count T - 1"
      using above by (simp only:)
    moreover have "table_size table < table_size T"
      using gt by (simp only: sT)
    ultimately show ?thesis
      using sT fT by (intro conjI)
  qed
  have failed: "hmgrtable_alloc_handle table obj t mv mem = Some (table, 0)"
    if ex: "expand_table table 0 mem = Some (t1, False)" for t1
  proof -
    from ex have "t1 = table" by (rule expand_table_False)
    with ex assms(1) show ?thesis by (simp add: alloc_handle_eq)
  qed
  have faults: "hmgrtable_alloc_handle table obj t mv mem = None"
    if "expand_table table 0 mem = None"
    using that assms(1) by (simp add: alloc_handle_eq)
  have success: "(\<exists>grown. expand_table table 0 mem = Some (grown, True) \<and>
        alloc_pop grown obj t mv = Some (table', h)) \<and>
      HMGRTABLE_MIN_FREE_ENTRIES < free_count table' \<and> table_size table < table_size table'"
    if alloc: "hmgrtable_alloc_handle table obj t mv mem = Some (table', h)" and h: "h \<noteq> 0"
    for table' h
  proof -
    from alloc_handle_success [OF alloc h] assms(1) obtain T where
      pop: "alloc_pop T obj t mv = Some (table', h)"
      and T: "expand_table table 0 mem = Some (T, True)"
      by auto
    from alloc_pop_success [OF pop h] have
      s': "table_size table' = table_size T" and f': "free_count table' = free_count T - 1"
      by simp_all
    from grown [OF T] pop T show ?thesis
      by (auto simp: s' f')
  qed
  from grown failed faults success show ?thesis
    by blast
qed

theorem alloc_grows_at_low_water_mark_witness:
  "hmgr_run (assign_ops 1000) (hmgrtable_init 0) = Some (filled_table 1024 1000) \<and>
   free_count (filled_table 1024 1000) = 24 \<and>
   table_size (filled_table 1024 1000) = 1024 \<and>
   map_option snd
     (hmgrtable_alloc_handle (filled_table 1024 1000) 7 (HMGRENTRY_TYPE_OBJECT 1) True zeroed) =
     Some (build_handle 1000 1 0) \<and>
   build_handle 1000 1 0 \<noteq> 0 \<and>
   map_option (table_size \<circ> fst)
     (hmgrtable_alloc_handle (filled_table 1024 1000) 7 (HMGRENTRY_TYPE_OBJECT 1) True zeroed) =
     Some 2048 \<and>
   map_option (free_count \<circ> fst)
     (hmgrtable_alloc_handle (filled_table 1024 1000) 7 (HMGRENTRY_TYPE_OBJECT 1) True zeroed) =
     Some 1047 \<and>
   map_option (free_handle_list_head \<circ> fst)
     (hmgrtable_alloc_handle (filled_table 1024 1000) 7 (HMGRENTRY_TYPE_OBJECT 1) True zeroed) =
     Some 1001"
proof -
  let ?T = "filled_table 1024 1000"
  have run: "hmgr_run (assign_ops 1000) (hmgrtable_init 0) = Some ?T"
    by (rule run_assign_ops) simp_all
  have f: "free_count ?T \<le> HMGRTABLE_MIN_FREE_ENTRIES"
    by (simp add: table_consts word_le_nat_alt)
  have s: "table_size ?T \<le> HMGRHANDLE_INDEX_MAX"
    by (simp add: table_consts word_le_nat_alt)
  have h: "build_handle 1000 1 0 \<noteq> 0"
    by (simp add: build_handle_def handle_mask_values handle_params)
  from alloc_grows_at_low_water_mark [OF f s, of zeroed 7 "HMGRENTRY_TYPE_OBJECT 1" True]
    expand_table_filled
  have "hmgrtable_alloc_handle ?T 7 (HMGRENTRY_TYPE_OBJECT 1) True zeroed =
      alloc_pop \<lparr>process = 0,
        entry_table = Some (grown_entries (filled_table 1024 1000) 2048 zero_block),
        free_handle_list_head = 1000, free_handle_list_tail = 2047, table_size = 2048,
        free_count = 1048\<rparr> 7 (HMGRENTRY_TYPE_OBJECT 1) True"
    by blast
  then have alloc: "hmgrtable_alloc_handle ?T 7 (HMGRENTRY_TYPE_OBJECT 1) True zeroed =
      Some (\<lparr>process = 0,
        entry_table = Some ((grown_entries (filled_table 1024 1000) 2048 zero_block)
          [1001 := set_prev_free_index HMGRTABLE_INVALID_INDEX
                     (grown_entries (filled_table 1024 1000) 2048 zero_block ! 1001),
           1000 := \<lparr>object = 7, type = HMGRENTRY_TYPE_OBJECT 1, unique = 1, instance_field = 0,
                     destroyed = False\<rparr>]),
        free_handle_list_head = 1001, free_handle_list_tail = 2047, table_size = 2048,
        free_count = 1047\<rparr>, build_handle 1000 1 0)"
    by (simp only: alloc_pop_grown_filled)
  have c: "free_count ?T = 24" "table_size ?T = 1024"
    by simp_all
  show ?thesis
    unfolding alloc using run c h by (intro conjI) simp_all
qed

text \<open>
  C10. On the successful path of \<open>hmgrtable_free_handle\<close> the write to
  \<open>entry_table[free_handle_list_tail].next_free_index\<close> is in bounds only under the
  precondition that the free list is not empty (\<open>free_count\<close> at least 1, so that the tail
  is below \<open>table_size\<close>). The write is inside the block exactly when the tail entry
  exists (lemma \<open>free_handle_faults_iff\<close>), but \<open>free_count\<close> does not tell whether it
  does, because \<open>expand_table\<close> miscounts the entries it adds. After the 1025
  assignments of \<open>miscount_ops 1025\<close>, \<open>free_count\<close> is \<open>0xFFFFFFFF\<close>, at least 1,
  while the free list is empty and its tail is the INVALID index: freeing the valid handle
  of slot 0 writes outside the block (the model returns \<open>None\<close>). One assignment
  earlier, after \<open>miscount_ops 1024\<close>, \<open>free_count\<close> is 0 while slot 1024 is free and
  is the tail: the same free writes inside the block.
\<close>

theorem free_handle_tail_beyond_block:
  "hmgr_run (miscount_ops 1025) (hmgrtable_init 0) = Some (filled_table 1025 1025) \<and>
   1 \<le> free_count (filled_table 1025 1025) \<and>
   free_handle_list_tail (filled_table 1025 1025) = HMGRTABLE_INVALID_INDEX \<and>
   is_handle_valid (filled_table 1025 1025) (build_handle 0 1 0) True
     (HMGRENTRY_TYPE_OBJECT 1) = Some True \<and>
   hmgrtable_free_handle (filled_table 1025 1025) (HMGRENTRY_TYPE_OBJECT 1)
     (build_handle 0 1 0) = None \<and>
   hmgr_run (miscount_ops 1024) (hmgrtable_init 0) = Some (filled_table 1025 1024) \<and>
   free_count (filled_table 1025 1024) = 0 \<and>
   free_handle_list_tail (filled_table 1025 1024) = 1024 \<and>
   table_size (filled_table 1025 1024) = 1025 \<and>
   is_handle_valid (filled_table 1025 1024) (build_handle 0 1 0) True
     (HMGRENTRY_TYPE_OBJECT 1) = Some True \<and>
   hmgrtable_free_handle (filled_table 1025 1024) (HMGRENTRY_TYPE_OBJECT 1)
     (build_handle 0 1 0) \<noteq> None"
proof -
  let ?T = "HMGRENTRY_TYPE_OBJECT 1"
  have runA: "hmgr_run (miscount_ops 1025) (hmgrtable_init 0) = Some (filled_table 1025 1025)"
    by (rule run_miscount_ops) simp_all
  have runB: "hmgr_run (miscount_ops 1024) (hmgrtable_init 0) = Some (filled_table 1025 1024)"
    by (rule run_miscount_ops) simp_all
  have "is_handle_valid (filled_table 1025 1025) (build_handle (of_nat 0) 1 0) True ?T = Some True"
    by (rule is_handle_valid_filled_table) simp_all
  then have vA: "is_handle_valid (filled_table 1025 1025) (build_handle 0 1 0) True ?T = Some True"
    by simp
  have "is_handle_valid (filled_table 1025 1024) (build_handle (of_nat 0) 1 0) True ?T = Some True"
    by (rule is_handle_valid_filled_table) simp_all
  then have vB: "is_handle_valid (filled_table 1025 1024) (build_handle 0 1 0) True ?T = Some True"
    by simp
  have cA: "1 \<le> free_count (filled_table 1025 1025)"
    unfolding filled_table_exhausted(1) by (simp add: word_le_nat_alt)
  have fB: "free_count (filled_table 1025 1024) = 0"
    "free_handle_list_tail (filled_table 1025 1024) = 1024"
    "table_size (filled_table 1025 1024) = 1025"
    by simp_all
  show ?thesis
    using runA cA filled_table_exhausted(2) vA free_exhausted runB fB vB free_last_slot_free
    by (intro conjI)
qed

end
